theory Spec2Isabelle
  imports Main "HOL-Library.Sublist"
begin

chapter \<open>The OSS-Fuzz bug report parser of monorail-scraper\<close>

text \<open>
  An embedding of \<open>string_util.py\<close> and \<open>oss_fuzz_bug_report_parser.py\<close>: the text
  primitives of Python they use, a backtracking matcher for their regular expressions,
  the extraction rules, the classifier and the assembler; then what the specification
  says of them, settled claim by claim.
\<close>

section \<open>Python text primitives\<close>

text \<open>
  Python \<open>str\<close> values are modelled by HOL strings: lists of characters with code
  points 0..255.  The character classes below are Python's \<open>str.isspace\<close> and
  \<open>str.isalnum\<close> (which the \<open>re\<close> module uses for \<open>\s\<close> and \<open>\w\<close> on \<open>str\<close> patterns)
  restricted to that range.  A value that may be \<open>None\<close> is a \<open>string option\<close>.
\<close>

definition isspace :: "char \<Rightarrow> bool" where
  "isspace c =
     (let n = (of_char c :: nat)
      in (9 \<le> n \<and> n \<le> 13) \<or> (28 \<le> n \<and> n \<le> 32) \<or> n = 133 \<or> n = 160)"

definition isalnum :: "char \<Rightarrow> bool" where
  "isalnum c =
     (let n = (of_char c :: nat)
      in (48 \<le> n \<and> n \<le> 57) \<or> (65 \<le> n \<and> n \<le> 90) \<or> (97 \<le> n \<and> n \<le> 122)
         \<or> n = 170 \<or> n = 178 \<or> n = 179 \<or> n = 181 \<or> n = 185 \<or> n = 186
         \<or> (188 \<le> n \<and> n \<le> 190) \<or> (192 \<le> n \<and> n \<le> 214)
         \<or> (216 \<le> n \<and> n \<le> 246) \<or> (248 \<le> n \<and> n \<le> 255))"

text \<open>\<open>\w\<close>: alphanumeric or underscore; \<open>\W\<close> is its complement.\<close>

definition is_word :: "char \<Rightarrow> bool" where
  "is_word c = (isalnum c \<or> c = CHR ''_'')"

text \<open>
  \<open>str.casefold\<close>, character by character: upper-case letters go to lower case and the
  sharp s (223) to \<open>ss\<close>.  The micro sign (181) folds to a code point outside the
  range, shared with no other character of the range; it is kept as it is.
\<close>

definition casefold_char :: "char \<Rightarrow> string" where
  "casefold_char c =
     (let n = (of_char c :: nat)
      in if (65 \<le> n \<and> n \<le> 90) \<or> (192 \<le> n \<and> n \<le> 214) \<or> (216 \<le> n \<and> n \<le> 222)
         then [char_of (n + 32)]
         else if n = 223 then ''ss''
         else [c])"

definition casefold :: "string \<Rightarrow> string" where
  "casefold s = concat (map casefold_char s)"

text \<open>\<open>str.strip()\<close>: whitespace removed at both ends.\<close>

definition strip :: "string \<Rightarrow> string" where
  "strip s = rev (dropWhile isspace (rev (dropWhile isspace s)))"

text \<open>\<open>s.split(sep)\<close> for a one-character separator: always at least one piece.\<close>

fun split :: "string \<Rightarrow> char \<Rightarrow> string list" where
  "split [] sep = [[]]"
| "split (c # cs) sep =
     (if c = sep then [] # split cs sep
      else (case split cs sep of [] \<Rightarrow> [[c]] | p # ps \<Rightarrow> (c # p) # ps))"

text \<open>\<open>s.split(sep, maxsplit=1)\<close>: cut at the first separator only.\<close>

definition split_once :: "string \<Rightarrow> char \<Rightarrow> string list" where
  "split_once s sep =
     (case dropWhile (\<lambda>c. c \<noteq> sep) s of
        [] \<Rightarrow> [s]
      | _ # rest \<Rightarrow> [takeWhile (\<lambda>c. c \<noteq> sep) s, rest])"

text \<open>\<open>needle in hay\<close> on strings.\<close>

fun contains :: "string \<Rightarrow> string \<Rightarrow> bool" where
  "contains needle [] = (needle = [])"
| "contains needle (c # cs) = (prefix needle (c # cs) \<or> contains needle cs)"

text \<open>
  \<open>re.sub(r'\W+', '', s)\<close>: scanning from the left, every maximal run of non-word
  characters is replaced by the empty string.
\<close>

function sub_nonword_runs :: "string \<Rightarrow> string" where
  "sub_nonword_runs [] = []"
| "sub_nonword_runs (c # cs) =
     (if is_word c then c # sub_nonword_runs cs
      else sub_nonword_runs (dropWhile (\<lambda>x. \<not> is_word x) cs))"
  by pat_completeness auto
termination
  by (relation "measure length") (auto simp: less_Suc_eq_le length_dropWhile_le)

section \<open>The regular expressions of the parser\<close>

text \<open>
  The fragment of Python's \<open>re\<close> syntax that the patterns of the parser use.  An atom
  matches one character: a literal, \<open>.\<close>, a set such as \<open>[Tt]\<close>, a range such as
  \<open>[0-9]\<close>, or \<open>\s\<close>.  In a set \<open>$\<close> is the dollar character, so \<open>[\n$]\<close> is the set
  of newline and dollar.  Quantifiers apply to atoms: \<open>*\<close> and \<open>+\<close> greedy, \<open>*?\<close> and
  \<open>+?\<close> lazy.  \<open>Group\<close> is the (only) capturing group; \<open>(?:a|b)\<close> is \<open>Alt\<close>.
\<close>

datatype atom = Ch char | Dot | OneOf "char list" | Range char char | Space

datatype rx =
    Eps
  | Atom atom
  | Seq rx rx
  | Alt rx rx
  | Star atom
  | Plus atom
  | LazyStar atom
  | LazyPlus atom
  | Group rx

text \<open>\<open>.\<close> matches any character but newline, and newline too under \<open>re.DOTALL\<close>.\<close>

fun atom_matches :: "bool \<Rightarrow> atom \<Rightarrow> char \<Rightarrow> bool" where
  "atom_matches dotall (Ch x) c = (c = x)"
| "atom_matches dotall Dot c = (dotall \<or> c \<noteq> CHR 0x0A)"
| "atom_matches dotall (OneOf xs) c = (c \<in> set xs)"
| "atom_matches dotall (Range lo hi) c =
     ((of_char lo :: nat) \<le> of_char c \<and> (of_char c :: nat) \<le> of_char hi)"
| "atom_matches dotall Space c = isspace c"

text \<open>
  The backtracking matcher returns, in the order in which the engine tries them, the
  ways a pattern matches at the start of the text: each is the content of group 1 so
  far and the text that is left.  A greedy quantifier tries the longest run first, a
  lazy one the shortest.
\<close>

primrec greedy_runs :: "(char \<Rightarrow> bool) \<Rightarrow> string \<Rightarrow> string list" where
  "greedy_runs p [] = [[]]"
| "greedy_runs p (c # cs) = (if p c then greedy_runs p cs else []) @ [c # cs]"

primrec lazy_runs :: "(char \<Rightarrow> bool) \<Rightarrow> string \<Rightarrow> string list" where
  "lazy_runs p [] = [[]]"
| "lazy_runs p (c # cs) = (c # cs) # (if p c then lazy_runs p cs else [])"

fun rx_match :: "bool \<Rightarrow> rx \<Rightarrow> string option \<times> string \<Rightarrow> (string option \<times> string) list" where
  "rx_match dotall Eps (g, s) = [(g, s)]"
| "rx_match dotall (Atom a) (g, s) =
     (case s of [] \<Rightarrow> [] | c # cs \<Rightarrow> if atom_matches dotall a c then [(g, cs)] else [])"
| "rx_match dotall (Seq r1 r2) (g, s) =
     concat (map (rx_match dotall r2) (rx_match dotall r1 (g, s)))"
| "rx_match dotall (Alt r1 r2) (g, s) = rx_match dotall r1 (g, s) @ rx_match dotall r2 (g, s)"
| "rx_match dotall (Star a) (g, s) = map (Pair g) (greedy_runs (atom_matches dotall a) s)"
| "rx_match dotall (Plus a) (g, s) =
     (case s of [] \<Rightarrow> []
      | c # cs \<Rightarrow> if atom_matches dotall a c
                then map (Pair g) (greedy_runs (atom_matches dotall a) cs) else [])"
| "rx_match dotall (LazyStar a) (g, s) = map (Pair g) (lazy_runs (atom_matches dotall a) s)"
| "rx_match dotall (LazyPlus a) (g, s) =
     (case s of [] \<Rightarrow> []
      | c # cs \<Rightarrow> if atom_matches dotall a c
                then map (Pair g) (lazy_runs (atom_matches dotall a) cs) else [])"
| "rx_match dotall (Group r) (g, s) =
     map (\<lambda>(g', s'). (Some (take (length s - length s') s), s')) (rx_match dotall r (g, s))"

text \<open>
  \<open>pattern.search(text)\<close>: the first way to match at the leftmost position that has
  one.  The result is \<open>None\<close> when there is no match, and otherwise \<open>match.group(1)\<close>
  (which is \<open>None\<close> when group 1 took no part in the match).
\<close>

fun search :: "bool \<Rightarrow> rx \<Rightarrow> string \<Rightarrow> string option option" where
  "search dotall r [] =
     (case rx_match dotall r (None, []) of [] \<Rightarrow> None | m # _ \<Rightarrow> Some (fst m))"
| "search dotall r (c # cs) =
     (case rx_match dotall r (None, c # cs) of
        [] \<Rightarrow> search dotall r cs
      | m # _ \<Rightarrow> Some (fst m))"

text \<open>A literal piece of a pattern, and a pattern written as the list of its pieces.\<close>

primrec lit :: "string \<Rightarrow> rx" where
  "lit [] = Eps"
| "lit (c # cs) = Seq (Atom (Ch c)) (lit cs)"

primrec pieces :: "rx list \<Rightarrow> rx" where
  "pieces [] = Eps"
| "pieces (r # rs) = Seq r (pieces rs)"

text \<open>The class \<open>[\n$]\<close> that ends most patterns.\<close>

definition nl_or_dollar :: rx where
  "nl_or_dollar = Atom (OneOf [CHR 0x0A, CHR ''$''])"

section \<open>string\_util\<close>

datatype error =
    Warning rx string
  | ScrapeException string
  | AttributeError

text \<open>
  \<open>capture(input, regex, pattern_flags, groupnum=1, fail_gently)\<close>.  Every call of the
  parser leaves \<open>groupnum\<close> at 1, and \<open>pattern_flags\<close> is 0 or \<open>re.DOTALL\<close>.
\<close>

definition capture :: "string \<Rightarrow> rx \<Rightarrow> bool \<Rightarrow> bool \<Rightarrow> error + string option" where
  "capture input regex dotall fail_gently =
     (case search dotall regex input of
        None \<Rightarrow> if \<not> fail_gently then Inl (Warning regex input) else Inr None
      | Some captured_text \<Rightarrow> Inr captured_text)"

definition almost_equal :: "string option \<Rightarrow> string option \<Rightarrow> bool" where
  "almost_equal str1 str2 =
     (case (str1, str2) of
        (Some s1, Some s2) \<Rightarrow>
          sub_nonword_runs (casefold (strip s1)) = sub_nonword_runs (casefold (strip s2))
      | _ \<Rightarrow> str1 = None \<and> str2 = None)"

section \<open>The issue and the attached bug report\<close>

text \<open>
  Modelled from the spec: the classes \<open>Comment\<close> and \<open>Issue\<close> of
  \<open>monorail_scraper.issue.issue\<close> and \<open>OSSFuzzBugReport\<close> of
  \<open>monorail_scraper.oss_fuzz.oss_fuzz_bug_report\<close>, which the parser imports and which are
  not among the sources (\<open>issue_scraper.py\<close> declares \<open>Comment\<close> and an \<open>Issue\<close> without the
  project and without the attached report).  The fields are those the parser reads and
  those its constructor call names, with the types of the dataclasses; time stamps and
  author roles are left out.  A field of the report holds whatever the extraction rule
  returned, so a text field is a \<open>string option\<close> (\<open>None\<close> is Python's \<open>None\<close>).
\<close>

record Comment =
  index :: int
  comment_author :: string
  body :: string

section \<open>The patterns of oss\_fuzz\_bug\_report\_parser\<close>

definition job_type_rx :: rx where
  "job_type_rx = pieces [lit ''Job Type: '', Group (LazyPlus Dot), nl_or_dollar]"

definition target_rx :: rx where
  "target_rx = pieces [lit ''Target: '', Group (LazyPlus Dot), nl_or_dollar]"

definition project_rx :: rx where
  "project_rx = pieces [lit ''Project: '', Group (LazyPlus Dot), nl_or_dollar]"

definition fuzzing_engine_rx :: rx where
  "fuzzing_engine_rx =
     pieces [lit ''Fuzzing '', Atom (OneOf ''Ee''), lit ''ngine: '', Group (LazyPlus Dot),
             nl_or_dollar]"

definition fuzz_target_rx :: rx where
  "fuzz_target_rx =
     pieces [lit ''Fuzz '', Atom (OneOf ''Tt''), lit ''arget: '', Group (LazyPlus Dot),
             nl_or_dollar]"

definition fuzz_target_binary_rx :: rx where
  "fuzz_target_binary_rx =
     pieces [lit ''Fuzz target binary: '', Group (LazyPlus Dot), nl_or_dollar]"

definition fuzzer_binary_rx :: rx where
  "fuzzer_binary_rx = pieces [lit ''Fuzzer binary: '', Group (LazyPlus Dot), nl_or_dollar]"

definition fuzzer_rx :: rx where
  "fuzzer_rx = pieces [lit ''Fuzzer: '', Group (LazyPlus Dot), nl_or_dollar]"

definition platform_id_rx :: rx where
  "platform_id_rx = pieces [lit ''Platform Id: '', Group (LazyPlus Dot), nl_or_dollar]"

definition crash_type_rx :: rx where
  "crash_type_rx = pieces [lit ''Crash Type: '', Group (LazyStar Dot), nl_or_dollar]"

definition crash_address_rx :: rx where
  "crash_address_rx = pieces [lit ''Crash Address: '', Group (LazyStar Dot), nl_or_dollar]"

text \<open>\<open>Crash State:\n(.*?)\n(?:Sanitizer|\s*\n)\<close>, used with \<open>re.DOTALL\<close>.\<close>

definition crash_state_rx :: rx where
  "crash_state_rx =
     pieces [lit ''Crash State:\<newline>'', Group (LazyStar Dot), Atom (Ch CHR 0x0A),
             Alt (lit ''Sanitizer'') (Seq (Star Space) (Atom (Ch CHR 0x0A)))]"

definition sanitizer_rx :: rx where
  "sanitizer_rx = pieces [lit ''Sanitizer: '', Group (LazyPlus Dot), nl_or_dollar]"

definition regressed_rx :: rx where
  "regressed_rx = pieces [lit ''Regressed: '', Group (LazyPlus Dot), nl_or_dollar]"

definition crash_revision_rx :: rx where
  "crash_revision_rx = pieces [lit ''Crash Revision: '', Group (LazyPlus Dot), nl_or_dollar]"

definition fixed_rx :: rx where
  "fixed_rx = pieces [lit ''Fixed: '', Group (LazyPlus Dot), nl_or_dollar]"

definition verified_fixed_rx :: rx where
  "verified_fixed_rx =
     pieces [lit ''ClusterFuzz testcase '', Plus (Range CHR ''0'' CHR ''9''),
             lit '' is verified as fixed in '', Group (LazyPlus Dot), nl_or_dollar]"

definition reproducer_rx :: rx where
  "reproducer_rx = pieces [lit ''Reproducer Testcase: '', Group (LazyPlus Dot), nl_or_dollar]"

definition minimized_rx :: rx where
  "minimized_rx =
     pieces [lit ''Minimized Testcase ('', LazyPlus Dot, lit ''): '', Group (LazyPlus Dot),
             nl_or_dollar]"

definition unminimized_rx :: rx where
  "unminimized_rx = pieces [lit ''Unminimized Testcase: '', Group (LazyPlus Dot), nl_or_dollar]"

definition download_rx :: rx where
  "download_rx = pieces [lit ''Download: '', Group (LazyPlus Dot), nl_or_dollar]"

section \<open>The extraction rules\<close>

text \<open>
  A rule returns \<open>Inl\<close> of the exception it raises, or \<open>Inr\<close> of its value.  A method
  call on \<open>None\<close> raises \<open>AttributeError\<close>, and an \<open>if\<close>/\<open>elif\<close> chain without \<open>else\<close>
  returns \<open>None\<close> when no branch applies.  The parameter \<open>id\<close> is written \<open>id'\<close>, and
  the names of the rules are the source's without the leading underscore.
\<close>

definition get_jobtype :: "string \<Rightarrow> error + string option" where
  "get_jobtype description = capture description job_type_rx False False"

definition get_project :: "string \<Rightarrow> int \<Rightarrow> error + string option" where
  "get_project description id' =
     (if id' \<le> 135 then
        (case get_jobtype description of
           Inl e \<Rightarrow> Inl e
         | Inr None \<Rightarrow> Inl AttributeError
         | Inr (Some jobtype) \<Rightarrow> Inr (Some (last (split (strip jobtype) CHR ''_''))))
      else if 135 \<le> id' \<and> id' \<le> 212 then capture description target_rx False False
      else capture description project_rx False False)"

text \<open>The branches of \<open>_get_fuzzing_engine\<close> on the job type, for ids up to 16307.\<close>

definition engine_of_jobtype :: "string \<Rightarrow> string" where
  "engine_of_jobtype jobtype =
     (if prefix ''afl'' jobtype then ''afl''
      else if prefix ''libfuzzer'' jobtype then ''libFuzzer''
      else if prefix ''honggfuzz'' jobtype then ''honggfuzz''
      else hd (split jobtype CHR ''_''))"

definition get_fuzzing_engine :: "string \<Rightarrow> int \<Rightarrow> error + string option" where
  "get_fuzzing_engine description id' =
     (if contains ''Fuzzer: js_fuzzer'' description then Inr (Some ''js_fuzzer'')
      else if id' \<le> 16307 then
        (case get_jobtype description of
           Inl e \<Rightarrow> Inl e
         | Inr None \<Rightarrow> Inl AttributeError
         | Inr (Some jobtype) \<Rightarrow> Inr (Some (engine_of_jobtype jobtype)))
      else if id' \<ge> 16308 then capture description fuzzing_engine_rx False False
      else Inr None)"

definition special_fuzzers :: "string list" where
  "special_fuzzers = [''js_fuzzer'', ''ftfuzzer'', ''magic_fuzzer'', ''guetzli_fuzzer'']"

definition get_fuzz_target_binary :: "string \<Rightarrow> int \<Rightarrow> error + string option" where
  "get_fuzz_target_binary description id' =
     (case capture description fuzz_target_rx False True of
        Inl e \<Rightarrow> Inl e
      | Inr (Some fuzz_target_binary) \<Rightarrow> Inr (Some fuzz_target_binary)
      | Inr None \<Rightarrow>
     (case capture description fuzz_target_binary_rx False True of
        Inl e \<Rightarrow> Inl e
      | Inr (Some fuzz_target_binary) \<Rightarrow> Inr (Some fuzz_target_binary)
      | Inr None \<Rightarrow>
     (case capture description fuzzer_binary_rx False True of
        Inl e \<Rightarrow> Inl e
      | Inr (Some fuzz_target_binary) \<Rightarrow> Inr (Some fuzz_target_binary)
      | Inr None \<Rightarrow>
     (case capture description fuzzer_rx False False of
        Inl e \<Rightarrow> Inl e
      | Inr None \<Rightarrow> Inl AttributeError
      | Inr (Some fuzzer) \<Rightarrow>
          if fuzzer \<in> set special_fuzzers then Inr (Some fuzzer)
          else (let tokens = split_once fuzzer CHR ''_''
                in if length tokens \<le> 1 then Inr (Some [])
                   else Inr (Some (split_once fuzzer CHR ''_'' ! 1)))))))"

definition get_job_type :: "string \<Rightarrow> error + string option" where
  "get_job_type description = capture description job_type_rx False False"

definition get_platform_id :: "string \<Rightarrow> error + string option" where
  "get_platform_id description =
     (case capture description platform_id_rx False True of
        Inl e \<Rightarrow> Inl e
      | Inr (Some platform) \<Rightarrow> Inr (Some platform)
      | Inr None \<Rightarrow> Inr (Some []))"

definition get_crash_type :: "string \<Rightarrow> error + string option" where
  "get_crash_type description = capture description crash_type_rx False False"

definition get_crash_address :: "string \<Rightarrow> error + string option" where
  "get_crash_address description = capture description crash_address_rx False False"

text \<open>The loop of \<open>_get_crash_state\<close>: one step per line, appending the kept lines.\<close>

definition crash_state_step :: "string list \<Rightarrow> string \<Rightarrow> string list" where
  "crash_state_step crash_state line =
     (let cleaned_line = strip line
      in if length cleaned_line > 0 then crash_state @ [cleaned_line] else crash_state)"

definition get_crash_state :: "string \<Rightarrow> error + string list" where
  "get_crash_state description =
     (case capture description crash_state_rx True False of
        Inl e \<Rightarrow> Inl e
      | Inr None \<Rightarrow> Inl AttributeError
      | Inr (Some raw_crash_state) \<Rightarrow>
          Inr (foldl crash_state_step [] (split raw_crash_state CHR 0x0A)))"

fun sanitizer_of_words :: "string list \<Rightarrow> string" where
  "sanitizer_of_words [] = []"
| "sanitizer_of_words (word # jobtype_words) =
     (if almost_equal (Some word) (Some ''asan'') then ''address (ASAN)''
      else if almost_equal (Some word) (Some ''ubsan'') then ''undefined (UBSAN)''
      else if almost_equal (Some word) (Some ''msan'') then ''memory (MSAN)''
      else if almost_equal (Some word) (Some ''tsan'') then ''thread (TSAN)''
      else if almost_equal (Some word) (Some ''lsan'') then ''leak (LSAN)''
      else sanitizer_of_words jobtype_words)"

definition get_sanitizer_from_jobtype :: "string \<Rightarrow> string" where
  "get_sanitizer_from_jobtype jobtype = sanitizer_of_words (split jobtype CHR ''_'')"

definition get_sanitizer :: "string \<Rightarrow> int \<Rightarrow> error + string option" where
  "get_sanitizer description id' =
     (if id' \<le> 383 then
        (case capture description job_type_rx False False of
           Inl e \<Rightarrow> Inl e
         | Inr None \<Rightarrow> Inl AttributeError
         | Inr (Some jobtype) \<Rightarrow> Inr (Some (get_sanitizer_from_jobtype jobtype)))
      else if id' \<ge> 384 then capture description sanitizer_rx False False
      else Inr None)"

definition get_regressed_commits_url :: "string \<Rightarrow> error + string option" where
  "get_regressed_commits_url description =
     (case capture description regressed_rx False True of
        Inl e \<Rightarrow> Inl e
      | Inr (Some url) \<Rightarrow> Inr (Some url)
      | Inr None \<Rightarrow>
     (case capture description crash_revision_rx False True of
        Inl e \<Rightarrow> Inl e
      | Inr (Some url) \<Rightarrow> Inr (Some url)
      | Inr None \<Rightarrow> Inr None))"

text \<open>
  The loop of \<open>_get_fixed_commits_url\<close>: \<open>continue\<close> goes on with the rest of the
  comments, \<open>break\<close> returns group 1 of the match.
\<close>

fun scan_comments :: "rx \<Rightarrow> Comment list \<Rightarrow> string option" where
  "scan_comments pattern [] = None"
| "scan_comments pattern (comment # rest) =
     (if comment_author comment \<noteq> ''ClusterFuzz-External'' then scan_comments pattern rest
      else (case search False pattern (body comment) of
              None \<Rightarrow> scan_comments pattern rest
            | Some group1 \<Rightarrow> group1))"

definition fixed_commits_regex :: "int \<Rightarrow> rx" where
  "fixed_commits_regex id' = (if id' \<le> 14834 then fixed_rx else verified_fixed_rx)"

definition get_fixed_commits_url :: "Comment list \<Rightarrow> int \<Rightarrow> string option" where
  "get_fixed_commits_url cs id' = scan_comments (fixed_commits_regex id') cs"

definition get_testcase_url :: "string \<Rightarrow> error + string option" where
  "get_testcase_url description =
     (case capture description reproducer_rx False True of
        Inl e \<Rightarrow> Inl e
      | Inr (Some url) \<Rightarrow> Inr (Some url)
      | Inr None \<Rightarrow>
     (case capture description minimized_rx False True of
        Inl e \<Rightarrow> Inl e
      | Inr (Some url) \<Rightarrow> Inr (Some url)
      | Inr None \<Rightarrow>
     (case capture description unminimized_rx False True of
        Inl e \<Rightarrow> Inl e
      | Inr (Some url) \<Rightarrow> Inr (Some url)
      | Inr None \<Rightarrow> capture description download_rx False False)))"

section \<open>Classification and assembly\<close>

record OSSFuzzBugReport =
  project :: "string option"
  fuzzing_engine :: "string option"
  fuzz_target_binary :: "string option"
  job_type :: "string option"
  platform_id :: "string option"
  crash_type :: "string option"
  crash_addr :: "string option"
  crash_state :: "string list"
  sanitizer :: "string option"
  regressed_commits_url :: "string option"
  fixed_commits_url :: "string option"
  testcase_url :: "string option"

record Issue =
  issue_id :: int
  summary :: string
  author :: string
  stars :: int
  metadata :: "string \<rightharpoonup> string"
  labels :: "string list"
  description :: string
  comments :: "Comment list"
  issue_project :: string
  oss_fuzz_bug_report :: "OSSFuzzBugReport option"

definition is_oss_fuzz_bug_report :: "Issue \<Rightarrow> error + bool" where
  "is_oss_fuzz_bug_report issue =
     (let is_oss_fuzz = almost_equal (Some ''oss-fuzz'') (Some (issue_project issue));
          authored_by_clusterfuzz = almost_equal (Some ''ClusterFuzz-External'') (Some (author issue))
      in if is_oss_fuzz \<and> metadata issue ''Type'' = None
         then Inl (ScrapeException ''Missing Type metadata'')
         else
           (let type_value = (case metadata issue ''Type'' of None \<Rightarrow> [] | Some v \<Rightarrow> v);
                is_nonsecurity_bug_report = almost_equal (Some ''Bug'') (Some type_value);
                is_security_bug_report = almost_equal (Some ''Bug-Security'') (Some type_value)
            in Inr (is_oss_fuzz \<and> authored_by_clusterfuzz
                    \<and> (is_nonsecurity_bug_report \<or> is_security_bug_report))))"

text \<open>Running one rule after another: the first exception ends the run.\<close>

definition and_then :: "error + 'a \<Rightarrow> ('a \<Rightarrow> error + 'b) \<Rightarrow> error + 'b" where
  "and_then m f = (case m of Inl e \<Rightarrow> Inl e | Inr v \<Rightarrow> f v)"

definition parse_oss_fuzz_bug_report_details :: "Issue \<Rightarrow> error + OSSFuzzBugReport" where
  "parse_oss_fuzz_bug_report_details issue =
     (let id' = issue_id issue; d = description issue; cs = comments issue in
      and_then (get_project d id') (\<lambda>v_project.
      and_then (get_fuzzing_engine d id') (\<lambda>v_fuzzing_engine.
      and_then (get_fuzz_target_binary d id') (\<lambda>v_fuzz_target_binary.
      and_then (get_job_type d) (\<lambda>v_job_type.
      and_then (get_platform_id d) (\<lambda>v_platform_id.
      and_then (get_crash_type d) (\<lambda>v_crash_type.
      and_then (get_crash_address d) (\<lambda>v_crash_addr.
      and_then (get_crash_state d) (\<lambda>v_crash_state.
      and_then (get_sanitizer d id') (\<lambda>v_sanitizer.
      and_then (get_regressed_commits_url d) (\<lambda>v_regressed_commits_url.
      (let v_fixed_commits_url = get_fixed_commits_url cs id' in
      and_then (get_testcase_url d) (\<lambda>v_testcase_url.
      Inr \<lparr> project = v_project, fuzzing_engine = v_fuzzing_engine,
            fuzz_target_binary = v_fuzz_target_binary, job_type = v_job_type,
            platform_id = v_platform_id, crash_type = v_crash_type,
            crash_addr = v_crash_addr, crash_state = v_crash_state,
            sanitizer = v_sanitizer, regressed_commits_url = v_regressed_commits_url,
            fixed_commits_url = v_fixed_commits_url,
            testcase_url = v_testcase_url \<rparr>)))))))))))))"

text \<open>
  \<open>attach_oss_fuzz_bug_report\<close> changes the issue in place; the model returns the issue
  as it is afterwards together with the outcome, also when an exception leaves the
  function.
\<close>

definition attach_oss_fuzz_bug_report :: "Issue \<Rightarrow> Issue \<times> (error + bool)" where
  "attach_oss_fuzz_bug_report issue =
     (case is_oss_fuzz_bug_report issue of
        Inl e \<Rightarrow> (issue, Inl e)
      | Inr False \<Rightarrow> (issue, Inr False)
      | Inr True \<Rightarrow>
          (case parse_oss_fuzz_bug_report_details issue of
             Inl e \<Rightarrow> (issue, Inl e)
           | Inr report \<Rightarrow> (issue\<lparr>oss_fuzz_bug_report := Some report\<rparr>, Inr True)))"

section \<open>Notions of the specification\<close>

text \<open>
  The normal form the specification compares: surrounding whitespace trimmed, case
  folded, every non-word character removed.
\<close>

definition normalized :: "string \<Rightarrow> string" where
  "normalized s = filter is_word (casefold (strip s))"

text \<open>A pattern in which group 1 takes part in every match.\<close>

primrec always_captures :: "rx \<Rightarrow> bool" where
  "always_captures Eps = False"
| "always_captures (Atom a) = False"
| "always_captures (Seq r1 r2) = (always_captures r1 \<or> always_captures r2)"
| "always_captures (Alt r1 r2) = (always_captures r1 \<and> always_captures r2)"
| "always_captures (Star a) = False"
| "always_captures (Plus a) = False"
| "always_captures (LazyStar a) = False"
| "always_captures (LazyPlus a) = False"
| "always_captures (Group r) = True"

text \<open>
  What the specification says of the fix-commit scan: among the comments whose author is
  exactly \<open>ClusterFuzz-External\<close>, in thread order, the matches of the pattern.
\<close>

definition fix_commit_matches :: "rx \<Rightarrow> Comment list \<Rightarrow> string option list" where
  "fix_commit_matches pattern cs =
     List.map_filter (\<lambda>c. search False pattern (body c))
       (filter (\<lambda>c. comment_author c = ''ClusterFuzz-External'') cs)"

text \<open>
  What the specification asks of an attached report.  The nine text fields are
  strings, not \<open>None\<close>; the crash state is a sequence; the two commit URLs are
  a string or explicitly absent, which every value of their type is.
\<close>

definition fully_populated :: "OSSFuzzBugReport \<Rightarrow> bool" where
  "fully_populated report =
     (project report \<noteq> None \<and> fuzzing_engine report \<noteq> None
      \<and> fuzz_target_binary report \<noteq> None \<and> job_type report \<noteq> None
      \<and> platform_id report \<noteq> None \<and> crash_type report \<noteq> None
      \<and> crash_addr report \<noteq> None \<and> sanitizer report \<noteq> None
      \<and> testcase_url report \<noteq> None)"

text \<open>The exception of a rule, if it raised one.\<close>

definition failure :: "error + 'a \<Rightarrow> error option" where
  "failure r = (case r of Inl e \<Rightarrow> Some e | Inr v \<Rightarrow> None)"

text \<open>The exceptions of the extraction rules on an issue, in the order of the calls.\<close>

definition rule_failures :: "Issue \<Rightarrow> error list" where
  "rule_failures issue =
     (let id' = issue_id issue; d = description issue
      in List.map_filter (\<lambda>x. x)
           [failure (get_project d id'), failure (get_fuzzing_engine d id'),
            failure (get_fuzz_target_binary d id'), failure (get_job_type d),
            failure (get_platform_id d), failure (get_crash_type d),
            failure (get_crash_address d), failure (get_crash_state d),
            failure (get_sanitizer d id'), failure (get_regressed_commits_url d),
            failure (get_testcase_url d)])"

text \<open>Every field of the report is the value of its rule on the issue.\<close>

definition rule_values :: "Issue \<Rightarrow> OSSFuzzBugReport \<Rightarrow> bool" where
  "rule_values issue report =
     (let id' = issue_id issue; d = description issue
      in get_project d id' = Inr (project report)
         \<and> get_fuzzing_engine d id' = Inr (fuzzing_engine report)
         \<and> get_fuzz_target_binary d id' = Inr (fuzz_target_binary report)
         \<and> get_job_type d = Inr (job_type report)
         \<and> get_platform_id d = Inr (platform_id report)
         \<and> get_crash_type d = Inr (crash_type report)
         \<and> get_crash_address d = Inr (crash_addr report)
         \<and> get_crash_state d = Inr (crash_state report)
         \<and> get_sanitizer d id' = Inr (sanitizer report)
         \<and> get_regressed_commits_url d = Inr (regressed_commits_url report)
         \<and> get_fixed_commits_url (comments issue) id' = fixed_commits_url report
         \<and> get_testcase_url d = Inr (testcase_url report))"

text \<open>
  The crash-state block in the words of the specification.  A block ends before a
  newline that is followed by \<open>Sanitizer\<close> or by a blank line, that is by whitespace up
  to a further newline.
\<close>

definition blank_line_start :: "string \<Rightarrow> bool" where
  "blank_line_start t = (CHR 0x0A \<in> set (takeWhile isspace t))"

definition block_terminator :: "string \<Rightarrow> bool" where
  "block_terminator t = (prefix ''Sanitizer'' t \<or> blank_line_start t)"

text \<open>The text up to the first newline that a terminator follows.\<close>

fun block_upto_terminator :: "string \<Rightarrow> string option" where
  "block_upto_terminator [] = None"
| "block_upto_terminator (c # cs) =
     (if c = CHR 0x0A \<and> block_terminator cs then Some []
      else map_option ((#) c) (block_upto_terminator cs))"

text \<open>The text after the first occurrence of a marker.\<close>

fun text_after_first :: "string \<Rightarrow> string \<Rightarrow> string option" where
  "text_after_first marker [] = (if marker = [] then Some [] else None)"
| "text_after_first marker (c # cs) =
     (if prefix marker (c # cs) then Some (drop (length marker) (c # cs))
      else text_after_first marker cs)"

definition crash_block :: "string \<Rightarrow> string option" where
  "crash_block d =
     (case text_after_first ''Crash State:\<newline>'' d of
        None \<Rightarrow> None
      | Some s \<Rightarrow> block_upto_terminator s)"

text \<open>The lines of a block: each trimmed, the empty ones dropped, the order kept.\<close>

definition kept_lines :: "string \<Rightarrow> string list" where
  "kept_lines block = filter (\<lambda>line. line \<noteq> []) (map strip (split block CHR 0x0A))"

text \<open>Group 1 of the first way to match, if there is one.\<close>

definition first_group :: "(string option \<times> string) list \<Rightarrow> string option option" where
  "first_group ms = (case ms of [] \<Rightarrow> None | m # _ \<Rightarrow> Some (fst m))"

section \<open>Example issues and descriptions\<close>

text \<open>An issue of the target project, by another author, without metadata.\<close>

definition stranger_issue :: Issue where
  "stranger_issue =
     \<lparr> issue_id = 7, summary = ''crash'', author = ''alice'', stars = 0,
       metadata = Map.empty, labels = [], description = ''text'', comments = [],
       issue_project = ''OSS Fuzz'', oss_fuzz_bug_report = None \<rparr>"

text \<open>Issues for the classifier: the target project with another author, with and
  without a \<open>Type\<close>, and another project.\<close>

definition other_author_issue :: Issue where
  "other_author_issue =
     \<lparr> issue_id = 9, summary = ''build failure'', author = ''bob'', stars = 1,
       metadata = Map.empty, labels = [], description = ''text'', comments = [],
       issue_project = ''oss-fuzz'', oss_fuzz_bug_report = None \<rparr>"

definition chromium_issue :: Issue where
  "chromium_issue =
     \<lparr> issue_id = 11, summary = ''crash'', author = ''ClusterFuzz-External'', stars = 0,
       metadata = Map.empty, labels = [], description = ''text'', comments = [],
       issue_project = ''chromium'', oss_fuzz_bug_report = None \<rparr>"

definition typed_other_author_issue :: Issue where
  "typed_other_author_issue =
     \<lparr> issue_id = 12, summary = ''question'', author = ''bob'', stars = 0,
       metadata = [''Type'' \<mapsto> ''Bug''], labels = [], description = ''text'', comments = [],
       issue_project = ''oss-fuzz'', oss_fuzz_bug_report = None \<rparr>"

text \<open>Descriptions on which the rules selected by the id give different values.\<close>

definition padded_job_description :: string where
  "padded_job_description = ''Job Type: libfuzzer_asan_foo \<newline>''"

definition job_and_target_description :: string where
  "job_and_target_description = ''Job Type: libfuzzer_asan_foo\<newline>Target: bar\<newline>Project: baz\<newline>''"

definition job_and_engine_description :: string where
  "job_and_engine_description =
     ''Job Type: honggfuzz_asan_foo\<newline>Fuzzing Engine: libFuzzer\<newline>''"

definition js_fuzzer_description :: string where
  "js_fuzzer_description =
     ''Fuzzer: js_fuzzer\<newline>Job Type: libfuzzer_asan_v8\<newline>Fuzzing Engine: libFuzzer\<newline>''"

text \<open>
  A description with a job type of no known engine, and one whose last line, with no
  newline after it, is the \<open>Fuzzing Engine:\<close> line.
\<close>

definition other_engine_description :: string where
  "other_engine_description =
     ''Job Type: centipede_asan_foo\<newline>Fuzzing Engine: libFuzzer\<newline>''"

definition engine_line_last_description :: string where
  "engine_line_last_description =
     ''Job Type: honggfuzz_asan_foo\<newline>Fuzzing Engine: libFuzzer''"

text \<open>
  The thread of the specification's example: the reporter's comment is the sentence
  alone, with no newline after it; and the same thread with that newline.
\<close>

definition spec_fix_thread :: "Comment list" where
  "spec_fix_thread =
     [\<lparr> index = 1, comment_author = ''ClusterFuzz-External'',
        body = ''ClusterFuzz testcase 123 is verified as fixed in abcd1234'' \<rparr>,
      \<lparr> index = 2, comment_author = ''alice'', body = ''Thanks for the fix.'' \<rparr>]"

definition spec_fix_thread_newline :: "Comment list" where
  "spec_fix_thread_newline =
     [\<lparr> index = 1, comment_author = ''ClusterFuzz-External'',
        body = ''ClusterFuzz testcase 123 is verified as fixed in abcd1234\<newline>'' \<rparr>,
      \<lparr> index = 2, comment_author = ''alice'', body = ''Thanks for the fix.'' \<rparr>]"

text \<open>A thread: a comment of somebody else, one of the reporter without the sentence,
  and two of the reporter with it.\<close>

definition fix_thread :: "Comment list" where
  "fix_thread =
     [\<lparr> index = 1, comment_author = ''clusterfuzz-external'',
        body = ''ClusterFuzz testcase 1 is verified as fixed in aaaa\<newline>'' \<rparr>,
      \<lparr> index = 2, comment_author = ''ClusterFuzz-External'', body = ''Fixed: dddd\<newline>'' \<rparr>,
      \<lparr> index = 3, comment_author = ''ClusterFuzz-External'',
        body = ''ClusterFuzz testcase 123 is verified as fixed in abcd1234\<newline>'' \<rparr>,
      \<lparr> index = 4, comment_author = ''ClusterFuzz-External'',
        body = ''ClusterFuzz testcase 123 is verified as fixed in ffff\<newline>'' \<rparr>]"

definition unrelated_thread :: "Comment list" where
  "unrelated_thread =
     [\<lparr> index = 1, comment_author = ''alice'', body = ''Fixed: dddd\<newline>'' \<rparr>,
      \<lparr> index = 2, comment_author = ''ClusterFuzz-External'', body = ''still crashing\<newline>'' \<rparr>]"

text \<open>An issue of the reporter with every marker of its era, and the report it carries.\<close>

definition full_issue :: Issue where
  "full_issue =
     \<lparr> issue_id = 20000, summary = ''skia: Heap-buffer-overflow in SkDraw::drawPath'',
       author = ''ClusterFuzz-External'', stars = 2,
       metadata = [''Type'' \<mapsto> ''Bug-Security''], labels = [''ClusterFuzz''],
       description =
         ''Project: skia\<newline>Fuzzing Engine: libFuzzer\<newline>'' @
         ''Fuzz Target: api_draw\<newline>Job Type: libfuzzer_asan_skia\<newline>'' @
         ''Platform Id: linux\<newline>\<newline>Crash Type: Heap-buffer-overflow READ 4\<newline>'' @
         ''Crash Address: 0x6020\<newline>Crash State:\<newline>  SkDraw::drawPath\<newline>'' @
         ''  SkCanvas::onDrawPath\<newline>  \<newline>Sanitizer: address (ASAN)\<newline>\<newline>'' @
         ''Regressed: https://oss-fuzz.com/revisions?range=1:2\<newline>\<newline>'' @
         ''Reproducer Testcase: https://oss-fuzz.com/download?id=123\<newline>'',
       comments =
         [\<lparr> index = 1, comment_author = ''ClusterFuzz-External'',
            body = ''ClusterFuzz testcase 123 is verified as fixed in abcd1234\<newline>'' \<rparr>],
       issue_project = ''oss-fuzz'', oss_fuzz_bug_report = None \<rparr>"

definition full_report :: OSSFuzzBugReport where
  "full_report =
     \<lparr> project = Some ''skia'', fuzzing_engine = Some ''libFuzzer'',
       fuzz_target_binary = Some ''api_draw'', job_type = Some ''libfuzzer_asan_skia'',
       platform_id = Some ''linux'', crash_type = Some ''Heap-buffer-overflow READ 4'',
       crash_addr = Some ''0x6020'',
       crash_state = [''SkDraw::drawPath'', ''SkCanvas::onDrawPath''],
       sanitizer = Some ''address (ASAN)'',
       regressed_commits_url = Some ''https://oss-fuzz.com/revisions?range=1:2'',
       fixed_commits_url = Some ''abcd1234'',
       testcase_url = Some ''https://oss-fuzz.com/download?id=123'' \<rparr>"

text \<open>The same issue with a description that lacks the crash state and what follows.\<close>

definition truncated_issue :: Issue where
  "truncated_issue =
     full_issue \<lparr> description :=
       ''Project: skia\<newline>Fuzzing Engine: libFuzzer\<newline>'' @
       ''Fuzz Target: api_draw\<newline>Job Type: libfuzzer_asan_skia\<newline>'' @
       ''Crash Type: Heap-buffer-overflow READ 4\<newline>Crash Address: \<newline>'' \<rparr>"

text \<open>Descriptions with a crash-state block that nothing ends.\<close>

definition trailing_frames_description :: string where
  "trailing_frames_description =
     ''Crash Type: Segv\<newline>Crash State:\<newline>  frame a\<newline>  frame b''"

definition trailing_newline_description :: string where
  "trailing_newline_description =
     ''Crash Type: Segv\<newline>Crash State:\<newline>  frame a\<newline>  frame b\<newline>''"

section \<open>Facts about the text primitives\<close>

lemma split_nonempty: "split s sep \<noteq> []"
  by (induction s) (auto split: list.splits)

lemma filter_dropWhile_not: "filter P (dropWhile (\<lambda>x. \<not> P x) xs) = filter P xs"
  by (induction xs) auto

lemma sub_nonword_runs_filter: "sub_nonword_runs s = filter is_word s"
  by (induction s rule: sub_nonword_runs.induct) (simp_all add: filter_dropWhile_not)

section \<open>The normalizer\<close>

text \<open>
  Claim C9.  \<open>almost_equal\<close> is reflexive and symmetric; two absent values are equal, an
  absent and a present value never are, and two present strings are equal exactly when
  their normal forms (trimmed, case-folded, non-word characters removed) are identical;
  so \<open>almost_equal("OSS-Fuzz", " oss fuzz ")\<close> holds.
\<close>

theorem almost_equal_normalized:
  "almost_equal a a
   \<and> almost_equal a b = almost_equal b a
   \<and> almost_equal None None
   \<and> \<not> almost_equal None (Some s) \<and> \<not> almost_equal (Some s) None
   \<and> almost_equal (Some s) (Some t) = (normalized s = normalized t)
   \<and> almost_equal (Some ''OSS-Fuzz'') (Some '' oss fuzz '')"
proof -
  have refl: "almost_equal a a"
    by (cases a) (simp_all add: almost_equal_def)
  have sym: "almost_equal a b = almost_equal b a"
    by (cases a; cases b) (auto simp: almost_equal_def)
  have present: "almost_equal (Some s) (Some t) = (normalized s = normalized t)"
    by (simp add: almost_equal_def normalized_def sub_nonword_runs_filter)
  have ex: "almost_equal (Some ''OSS-Fuzz'') (Some '' oss fuzz '')"
    by code_simp
  show ?thesis
    using refl sym present ex by (simp add: almost_equal_def)
qed

theorem almost_equal_normalized_witness:
  "almost_equal (Some ''Bug'') (Some '' bug! '') = (normalized ''Bug'' = normalized '' bug! '')
   \<and> normalized ''Bug'' = ''bug'' \<and> normalized '' bug! '' = ''bug''
   \<and> almost_equal (Some ''Bug'') (Some '' bug! '')"
proof -
  have n1: "normalized ''Bug'' = ''bug''" by code_simp
  have n2: "normalized '' bug! '' = ''bug''" by code_simp
  from almost_equal_normalized [of "Some ''Bug''" "Some '' bug! ''" "''Bug''" "'' bug! ''"]
  have "almost_equal (Some ''Bug'') (Some '' bug! '') = (normalized ''Bug'' = normalized '' bug! '')"
    by blast
  with n1 n2 show ?thesis by simp
qed

section \<open>Facts about matching\<close>

lemma rx_match_group_set:
  "(g', s') \<in> set (rx_match dotall r (g, s)) \<Longrightarrow> always_captures r \<or> g \<noteq> None \<Longrightarrow> g' \<noteq> None"
proof (induction r arbitrary: g s g' s')
  case (Seq r1 r2)
  then show ?case by (fastforce)
next
  case (Alt r1 r2)
  then show ?case by auto
qed (auto split: list.splits if_splits)

lemma search_Some:
  "search dotall r s = Some g \<Longrightarrow>
     \<exists>pre u m ms. s = pre @ u \<and> rx_match dotall r (None, u) = m # ms \<and> g = fst m"
proof (induction s)
  case Nil
  then show ?case by (auto split: list.splits)
next
  case (Cons c cs)
  show ?case
  proof (cases "rx_match dotall r (None, c # cs)")
    case Nil
    with Cons.prems have "search dotall r cs = Some g" by simp
    from Cons.IH [OF this] obtain pre u m ms
      where "cs = pre @ u" "rx_match dotall r (None, u) = m # ms" "g = fst m" by blast
    then have "c # cs = (c # pre) @ u \<and> rx_match dotall r (None, u) = m # ms \<and> g = fst m"
      by simp
    then show ?thesis by blast
  next
    case (Cons m ms)
    with Cons.prems have "g = fst m" by simp
    with Cons have "c # cs = [] @ (c # cs) \<and> rx_match dotall r (None, c # cs) = m # ms \<and> g = fst m"
      by simp
    then show ?thesis by blast
  qed
qed

lemma search_group_set:
  assumes "search dotall r s = Some g" and "always_captures r"
  shows "g \<noteq> None"
proof -
  from search_Some [OF assms(1)] obtain u m ms
    where m: "rx_match dotall r (None, u) = m # ms" "g = fst m" by blast
  then have "(fst m, snd m) \<in> set (rx_match dotall r (None, u))" by simp
  from rx_match_group_set [OF this] assms(2) m(2) show ?thesis by simp
qed

lemma capture_strict_defined:
  "always_captures r \<Longrightarrow> capture input r dotall False \<noteq> Inr None"
  by (auto simp: capture_def split: option.splits dest: search_group_set)

lemma always_captures_patterns:
  "always_captures job_type_rx" "always_captures target_rx" "always_captures project_rx"
  "always_captures fuzzing_engine_rx" "always_captures fuzz_target_rx"
  "always_captures fuzz_target_binary_rx" "always_captures fuzzer_binary_rx"
  "always_captures fuzzer_rx" "always_captures platform_id_rx" "always_captures crash_type_rx"
  "always_captures crash_address_rx" "always_captures crash_state_rx"
  "always_captures sanitizer_rx" "always_captures regressed_rx"
  "always_captures crash_revision_rx" "always_captures fixed_rx"
  "always_captures verified_fixed_rx" "always_captures reproducer_rx"
  "always_captures minimized_rx" "always_captures unminimized_rx" "always_captures download_rx"
  by (simp_all add: job_type_rx_def target_rx_def project_rx_def fuzzing_engine_rx_def
      fuzz_target_rx_def fuzz_target_binary_rx_def fuzzer_binary_rx_def fuzzer_rx_def
      platform_id_rx_def crash_type_rx_def crash_address_rx_def crash_state_rx_def
      sanitizer_rx_def regressed_rx_def crash_revision_rx_def fixed_rx_def
      verified_fixed_rx_def reproducer_rx_def minimized_rx_def unminimized_rx_def
      download_rx_def)

section \<open>The classifier\<close>

text \<open>
  Claim C2.  An issue whose project fuzzily matches \<open>oss-fuzz\<close> and whose metadata has no
  \<open>Type\<close> key makes \<open>is_oss_fuzz_bug_report\<close> raise \<open>ScrapeException\<close>, whoever the author is.
\<close>

theorem classifier_raises_without_type:
  assumes "almost_equal (Some (issue_project issue)) (Some ''oss-fuzz'')"
      and "metadata issue ''Type'' = None"
  shows "is_oss_fuzz_bug_report issue = Inl (ScrapeException ''Missing Type metadata'')"
proof -
  have "almost_equal (Some ''oss-fuzz'') (Some (issue_project issue))"
    using assms(1) by (simp add: almost_equal_def eq_commute)
  with assms(2) show ?thesis
    by (simp add: is_oss_fuzz_bug_report_def)
qed

theorem classifier_raises_without_type_witness:
  "almost_equal (Some (issue_project stranger_issue)) (Some ''oss-fuzz'')
   \<and> metadata stranger_issue ''Type'' = None
   \<and> \<not> almost_equal (Some (author stranger_issue)) (Some ''ClusterFuzz-External'')
   \<and> is_oss_fuzz_bug_report stranger_issue = Inl (ScrapeException ''Missing Type metadata'')"
proof -
  have p: "almost_equal (Some (issue_project stranger_issue)) (Some ''oss-fuzz'')"
    unfolding stranger_issue_def by code_simp
  have m: "metadata stranger_issue ''Type'' = None"
    by (simp add: stranger_issue_def)
  have a: "\<not> almost_equal (Some (author stranger_issue)) (Some ''ClusterFuzz-External'')"
    unfolding stranger_issue_def by code_simp
  from classifier_raises_without_type [OF p m] p m a show ?thesis by simp
qed

text \<open>
  Claim C3 says that the classifier returns false, without raising, whenever the project
  or the author does not match.  It does not for an issue of the target project by
  another author that has no \<open>Type\<close>: the check for the missing key comes first.
\<close>

theorem classifier_raises_for_other_author:
  "\<not> almost_equal (Some (author other_author_issue)) (Some ''ClusterFuzz-External'')
   \<and> is_oss_fuzz_bug_report other_author_issue = Inl (ScrapeException ''Missing Type metadata'')
   \<and> is_oss_fuzz_bug_report other_author_issue \<noteq> Inr False"
proof -
  have a: "\<not> almost_equal (Some (author other_author_issue)) (Some ''ClusterFuzz-External'')"
    unfolding other_author_issue_def by code_simp
  have p: "almost_equal (Some ''oss-fuzz'') (Some (issue_project other_author_issue))"
    unfolding other_author_issue_def by code_simp
  have "is_oss_fuzz_bug_report other_author_issue = Inl (ScrapeException ''Missing Type metadata'')"
    using p by (simp add: is_oss_fuzz_bug_report_def) (simp add: other_author_issue_def)
  with a show ?thesis by simp
qed

text \<open>
  Claim C3, amended.  When the project does not fuzzily match \<open>oss-fuzz\<close>, or the author
  does not fuzzily match \<open>ClusterFuzz-External\<close> and the metadata has a \<open>Type\<close> key, the
  classifier returns false and does not raise.
\<close>

theorem classifier_false_for_unrelated:
  assumes "\<not> almost_equal (Some (issue_project issue)) (Some ''oss-fuzz'')
           \<or> (\<not> almost_equal (Some (author issue)) (Some ''ClusterFuzz-External'')
               \<and> metadata issue ''Type'' \<noteq> None)"
  shows "is_oss_fuzz_bug_report issue = Inr False"
proof -
  have sym: "almost_equal (Some x) (Some y) = almost_equal (Some y) (Some x)" for x y
    by (auto simp: almost_equal_def)
  from assms show ?thesis
    by (auto simp: is_oss_fuzz_bug_report_def Let_def sym [of "''oss-fuzz''"]
        sym [of "''ClusterFuzz-External''"])
qed

theorem classifier_false_for_unrelated_witness:
  "\<not> almost_equal (Some (issue_project chromium_issue)) (Some ''oss-fuzz'')
   \<and> is_oss_fuzz_bug_report chromium_issue = Inr False
   \<and> \<not> almost_equal (Some (author typed_other_author_issue)) (Some ''ClusterFuzz-External'')
   \<and> metadata typed_other_author_issue ''Type'' \<noteq> None
   \<and> is_oss_fuzz_bug_report typed_other_author_issue = Inr False"
proof -
  have p: "\<not> almost_equal (Some (issue_project chromium_issue)) (Some ''oss-fuzz'')"
    unfolding chromium_issue_def by code_simp
  have a: "\<not> almost_equal (Some (author typed_other_author_issue)) (Some ''ClusterFuzz-External'')"
    unfolding typed_other_author_issue_def by code_simp
  have m: "metadata typed_other_author_issue ''Type'' \<noteq> None"
    by (simp add: typed_other_author_issue_def)
  from classifier_false_for_unrelated [of chromium_issue] p
  have r1: "is_oss_fuzz_bug_report chromium_issue = Inr False" by blast
  from classifier_false_for_unrelated [of typed_other_author_issue] a m
  have r2: "is_oss_fuzz_bug_report typed_other_author_issue = Inr False" by blast
  from p a m r1 r2 show ?thesis by simp
qed

lemma contains_sublist: "contains needle hay = sublist needle hay"
proof (induction hay)
  case Nil
  then show ?case by auto
next
  case (Cons c cs)
  then show ?case by (simp add: sublist_Cons_right)
qed

section \<open>The rules selected by the id\<close>

text \<open>
  Claim C5 says that for an id of at most 135 the project is the last token of the
  captured job type.  The code trims the job type first: with a blank before the end of
  the line the token is \<open>foo\<close>, not the captured job type's last token.
\<close>

theorem project_of_padded_job_type:
  "get_job_type padded_job_description = Inr (Some ''libfuzzer_asan_foo '')
   \<and> last (split ''libfuzzer_asan_foo '' CHR ''_'') = ''foo ''
   \<and> get_project padded_job_description 100 = Inr (Some ''foo'')
   \<and> get_project padded_job_description 100
       \<noteq> Inr (Some (last (split ''libfuzzer_asan_foo '' CHR ''_'')))"
proof -
  have j: "get_job_type padded_job_description = Inr (Some ''libfuzzer_asan_foo '')"
    unfolding padded_job_description_def by code_simp
  have l: "last (split ''libfuzzer_asan_foo '' CHR ''_'') = ''foo ''"
    by code_simp
  have p: "get_project padded_job_description 100 = Inr (Some ''foo'')"
    unfolding padded_job_description_def by code_simp
  from j l p show ?thesis by simp
qed

text \<open>
  Claim C5, amended.  The project rule selects by id, with 135 on the side of the job
  type: for an id of at most 135 it strictly captures the job type and returns the last
  \<open>_\<close>-delimited token of the job type with its surrounding whitespace trimmed (the
  failure of the capture is passed on); for an id above 135 and at most 212 it strictly
  captures \<open>Target: <value>\<close>; for an id above 212 it strictly captures
  \<open>Project: <value>\<close>.
\<close>

theorem project_rule_by_id:
  "get_job_type d \<noteq> Inr None
   \<and> (id' \<le> 135 \<and> get_job_type d = Inl e \<longrightarrow> get_project d id' = Inl e)
   \<and> (id' \<le> 135 \<and> get_job_type d = Inr (Some jt) \<longrightarrow>
        get_project d id' = Inr (Some (last (split (strip jt) CHR ''_''))))
   \<and> (135 < id' \<and> id' \<le> 212 \<longrightarrow> get_project d id' = capture d target_rx False False)
   \<and> (212 < id' \<longrightarrow> get_project d id' = capture d project_rx False False)"
proof -
  have "get_job_type d \<noteq> Inr None"
    unfolding get_job_type_def
    by (rule capture_strict_defined) (rule always_captures_patterns)
  then show ?thesis
    by (auto simp: get_project_def get_jobtype_def get_job_type_def)
qed

theorem project_rule_by_id_witness:
  "get_job_type job_and_target_description = Inr (Some ''libfuzzer_asan_foo'')
   \<and> get_project job_and_target_description 135 = Inr (Some ''foo'')
   \<and> get_project job_and_target_description 136 = Inr (Some ''bar'')
   \<and> get_project job_and_target_description 212 = Inr (Some ''bar'')
   \<and> get_project job_and_target_description 213 = Inr (Some ''baz'')"
proof -
  have j: "get_job_type job_and_target_description = Inr (Some ''libfuzzer_asan_foo'')"
    unfolding job_and_target_description_def by code_simp
  have l: "last (split (strip ''libfuzzer_asan_foo'') CHR ''_'') = ''foo''"
    by code_simp
  have t: "capture job_and_target_description target_rx False False = Inr (Some ''bar'')"
    unfolding job_and_target_description_def by code_simp
  have p: "capture job_and_target_description project_rx False False = Inr (Some ''baz'')"
    unfolding job_and_target_description_def by code_simp
  have a: "get_project job_and_target_description 135 = Inr (Some ''foo'')"
    using project_rule_by_id [of job_and_target_description 135 _ "''libfuzzer_asan_foo''"] j l
    by simp
  have b: "get_project job_and_target_description 136 = Inr (Some ''bar'')"
    using project_rule_by_id [of job_and_target_description 136] t by simp
  have c: "get_project job_and_target_description 212 = Inr (Some ''bar'')"
    using project_rule_by_id [of job_and_target_description 212] t by simp
  have d: "get_project job_and_target_description 213 = Inr (Some ''baz'')"
    using project_rule_by_id [of job_and_target_description 213] p by simp
  from j a b c d show ?thesis by simp
qed

lemma hd_split: "hd (split s sep) = takeWhile (\<lambda>c. c \<noteq> sep) s"
  by (induction s) (auto simp: split_nonempty split: list.splits)

text \<open>
  How the fuzzing-engine rule selects.  A description that contains
  \<open>Fuzzer: js_fuzzer\<close> has the engine \<open>js_fuzzer\<close> whatever the id.  Otherwise an id of at
  most 16307 derives the engine from the strictly captured job type: \<open>afl\<close>,
  \<open>libFuzzer\<close> or \<open>honggfuzz\<close> by prefix, else the text before the first \<open>_\<close>; an id of
  at least 16308 gives what the strict capture of the \<open>Fuzzing Engine:\<close> pattern gives.
\<close>

lemma fuzzing_engine_selection:
  "(sublist ''Fuzzer: js_fuzzer'' d \<longrightarrow> get_fuzzing_engine d id' = Inr (Some ''js_fuzzer''))
   \<and> (\<not> sublist ''Fuzzer: js_fuzzer'' d \<and> id' \<le> 16307 \<and> get_job_type d = Inl e \<longrightarrow>
        get_fuzzing_engine d id' = Inl e)
   \<and> (\<not> sublist ''Fuzzer: js_fuzzer'' d \<and> id' \<le> 16307 \<and> get_job_type d = Inr (Some jt) \<longrightarrow>
        get_fuzzing_engine d id' =
          Inr (Some (if prefix ''afl'' jt then ''afl''
                     else if prefix ''libfuzzer'' jt then ''libFuzzer''
                     else if prefix ''honggfuzz'' jt then ''honggfuzz''
                     else takeWhile (\<lambda>c. c \<noteq> CHR ''_'') jt)))
   \<and> (\<not> sublist ''Fuzzer: js_fuzzer'' d \<and> 16308 \<le> id' \<longrightarrow>
        get_fuzzing_engine d id' = capture d fuzzing_engine_rx False False)"
  by (auto simp: get_fuzzing_engine_def get_jobtype_def get_job_type_def engine_of_jobtype_def
      contains_sublist hd_split)

lemma fuzzing_engine_selection_examples:
  "sublist ''Fuzzer: js_fuzzer'' js_fuzzer_description
   \<and> get_fuzzing_engine js_fuzzer_description 16307 = Inr (Some ''js_fuzzer'')
   \<and> get_fuzzing_engine js_fuzzer_description 16308 = Inr (Some ''js_fuzzer'')
   \<and> \<not> sublist ''Fuzzer: js_fuzzer'' job_and_engine_description
   \<and> get_job_type job_and_engine_description = Inr (Some ''honggfuzz_asan_foo'')
   \<and> capture job_and_engine_description fuzzing_engine_rx False False = Inr (Some ''libFuzzer'')
   \<and> get_fuzzing_engine job_and_engine_description 16307 = Inr (Some ''honggfuzz'')
   \<and> get_fuzzing_engine job_and_engine_description 16308 = Inr (Some ''libFuzzer'')
   \<and> \<not> sublist ''Fuzzer: js_fuzzer'' other_engine_description
   \<and> get_job_type other_engine_description = Inr (Some ''centipede_asan_foo'')
   \<and> get_fuzzing_engine other_engine_description 16307 = Inr (Some ''centipede'')"
proof -
  have m: "sublist ''Fuzzer: js_fuzzer'' js_fuzzer_description"
    unfolding contains_sublist [symmetric] js_fuzzer_description_def by code_simp
  have n: "\<not> sublist ''Fuzzer: js_fuzzer'' job_and_engine_description"
    unfolding contains_sublist [symmetric] job_and_engine_description_def by code_simp
  have j: "get_job_type job_and_engine_description = Inr (Some ''honggfuzz_asan_foo'')"
    unfolding job_and_engine_description_def by code_simp
  have c: "capture job_and_engine_description fuzzing_engine_rx False False = Inr (Some ''libFuzzer'')"
    unfolding job_and_engine_description_def by code_simp
  have n': "\<not> sublist ''Fuzzer: js_fuzzer'' other_engine_description"
    unfolding contains_sublist [symmetric] other_engine_description_def by code_simp
  have j': "get_job_type other_engine_description = Inr (Some ''centipede_asan_foo'')"
    unfolding other_engine_description_def by code_simp
  have a1: "get_fuzzing_engine js_fuzzer_description 16307 = Inr (Some ''js_fuzzer'')"
    using fuzzing_engine_selection [of js_fuzzer_description 16307] m by blast
  have a2: "get_fuzzing_engine js_fuzzer_description 16308 = Inr (Some ''js_fuzzer'')"
    using fuzzing_engine_selection [of js_fuzzer_description 16308] m by blast
  have b1: "get_fuzzing_engine job_and_engine_description 16307 = Inr (Some ''honggfuzz'')"
    using fuzzing_engine_selection [of job_and_engine_description 16307 _ "''honggfuzz_asan_foo''"]
      n j
    by simp
  have b2: "get_fuzzing_engine job_and_engine_description 16308 = Inr (Some ''libFuzzer'')"
    using fuzzing_engine_selection [of job_and_engine_description 16308] n c by simp
  have b3: "get_fuzzing_engine other_engine_description 16307 = Inr (Some ''centipede'')"
    using fuzzing_engine_selection [of other_engine_description 16307 _ "''centipede_asan_foo''"]
      n' j'
    by simp
  from m n j c n' j' a1 a2 b1 b2 b3 show ?thesis by simp
qed

text \<open>
  Claim C6 says that on a description with a parsable \<open>Job Type:\<close> line and an explicit
  \<open>Fuzzing Engine:\<close> line id 16307 gives the engine derived from the job type and id
  16308 the \<open>Fuzzing Engine:\<close> value.  When the \<open>Fuzzing Engine:\<close> line is the last thing
  in the description, with no newline after it, id 16307 gives \<open>honggfuzz\<close> but id 16308
  raises: the class \<open>[\n$]\<close> at the end of the pattern does not match the end of the
  text.  With the newline the value is returned.
\<close>

theorem fuzzing_engine_at_end_of_text:
  "get_fuzzing_engine engine_line_last_description 16307 = Inr (Some ''honggfuzz'')
   \<and> get_fuzzing_engine engine_line_last_description 16308
       = Inl (Warning fuzzing_engine_rx engine_line_last_description)
   \<and> get_fuzzing_engine (engine_line_last_description @ ''\<newline>'') 16308
       = Inr (Some ''libFuzzer'')"
proof -
  have a: "get_fuzzing_engine engine_line_last_description 16307 = Inr (Some ''honggfuzz'')"
    unfolding engine_line_last_description_def by code_simp
  have "\<not> contains ''Fuzzer: js_fuzzer'' engine_line_last_description"
    unfolding engine_line_last_description_def by code_simp
  moreover have "search False fuzzing_engine_rx engine_line_last_description = None"
    unfolding engine_line_last_description_def by code_simp
  ultimately have b: "get_fuzzing_engine engine_line_last_description 16308
       = Inl (Warning fuzzing_engine_rx engine_line_last_description)"
    by (simp add: get_fuzzing_engine_def capture_def)
  have c: "get_fuzzing_engine (engine_line_last_description @ ''\<newline>'') 16308
       = Inr (Some ''libFuzzer'')"
    unfolding engine_line_last_description_def by code_simp
  from a b c show ?thesis by simp
qed

section \<open>The fix-commit scan\<close>

lemma scan_comments_first_match:
  "scan_comments pattern cs =
     (case fix_commit_matches pattern cs of [] \<Rightarrow> None | group1 # _ \<Rightarrow> group1)"
proof (induction cs)
  case Nil
  then show ?case by (simp add: fix_commit_matches_def List.map_filter_simps)
next
  case (Cons c cs)
  then show ?case
    by (cases "search False pattern (body c)")
       (simp_all add: fix_commit_matches_def List.map_filter_simps)
qed

text \<open>
  What the scan does.  The rule takes the pattern from the id (\<open>Fixed: <value>\<close> up to
  14834, the \<open>verified as fixed in\<close> sentence from 14835), looks in thread order at the
  comments whose author is exactly \<open>ClusterFuzz-External\<close>, and returns the first match
  of the pattern in such a comment's body; when there is none the result is \<open>None\<close>.
\<close>

lemma fixed_commits_url_first_match:
  "(id' \<le> 14834 \<longrightarrow> fixed_commits_regex id' = fixed_rx)
   \<and> (14835 \<le> id' \<longrightarrow> fixed_commits_regex id' = verified_fixed_rx)
   \<and> get_fixed_commits_url cs id' =
       (case fix_commit_matches (fixed_commits_regex id') cs of
          [] \<Rightarrow> None
        | group1 # _ \<Rightarrow> group1)"
  by (simp add: get_fixed_commits_url_def scan_comments_first_match fixed_commits_regex_def)

lemma fixed_commits_url_first_match_examples:
  "fixed_commits_regex 20000 = verified_fixed_rx
   \<and> fix_commit_matches verified_fixed_rx fix_thread = [Some ''abcd1234'', Some ''ffff'']
   \<and> get_fixed_commits_url fix_thread 20000 = Some ''abcd1234''
   \<and> fixed_commits_regex 14834 = fixed_rx
   \<and> fix_commit_matches fixed_rx fix_thread = [Some ''dddd'']
   \<and> get_fixed_commits_url fix_thread 14834 = Some ''dddd''
   \<and> fix_commit_matches verified_fixed_rx unrelated_thread = []
   \<and> get_fixed_commits_url unrelated_thread 20000 = None"
proof -
  have m1: "fix_commit_matches verified_fixed_rx fix_thread = [Some ''abcd1234'', Some ''ffff'']"
    unfolding fix_thread_def by code_simp
  have m2: "fix_commit_matches fixed_rx fix_thread = [Some ''dddd'']"
    unfolding fix_thread_def by code_simp
  have m3: "fix_commit_matches verified_fixed_rx unrelated_thread = []"
    unfolding unrelated_thread_def by code_simp
  have r1: "fixed_commits_regex 20000 = verified_fixed_rx"
    using fixed_commits_url_first_match [of 20000 fix_thread] by simp
  have r2: "fixed_commits_regex 14834 = fixed_rx"
    using fixed_commits_url_first_match [of 14834 fix_thread] by simp
  have a: "get_fixed_commits_url fix_thread 20000 = Some ''abcd1234''"
    using fixed_commits_url_first_match [of 20000 fix_thread] m1 r1 by simp
  have b: "get_fixed_commits_url fix_thread 14834 = Some ''dddd''"
    using fixed_commits_url_first_match [of 14834 fix_thread] m2 r2 by simp
  have c: "get_fixed_commits_url unrelated_thread 20000 = None"
    using fixed_commits_url_first_match [of 20000 unrelated_thread] m3 r1 by simp
  from m1 m2 m3 r1 r2 a b c show ?thesis by simp
qed

text \<open>
  Claim C8 says that the rule returns the first match of the id's pattern among the
  comments of \<open>ClusterFuzz-External\<close>; the specification's example is id 20000 with one
  such comment whose body is the sentence \<open>ClusterFuzz testcase 123 is verified as fixed
  in abcd1234\<close> and one unrelated comment, with result \<open>abcd1234\<close>.  On that thread the
  rule returns \<open>None\<close>: the body ends with the value, and the class \<open>[\n$]\<close> at the end
  of the pattern does not match the end of the text.  With a newline after the value the
  result is \<open>abcd1234\<close>.
\<close>

theorem fixed_commits_url_at_end_of_text:
  "get_fixed_commits_url spec_fix_thread 20000 = None
   \<and> get_fixed_commits_url spec_fix_thread_newline 20000 = Some ''abcd1234''"
proof -
  have a: "get_fixed_commits_url spec_fix_thread 20000 = None"
    unfolding spec_fix_thread_def by code_simp
  have b: "get_fixed_commits_url spec_fix_thread_newline 20000 = Some ''abcd1234''"
    unfolding spec_fix_thread_newline_def by code_simp
  from a b show ?thesis by simp
qed

section \<open>Where a field line has to end\<close>

text \<open>
  Claim C4.  The class \<open>[\n$]\<close> of the patterns holds the newline and the dollar
  character; it does not match the end of the text.  So a field line that ends the text
  without a newline is not found, and the strict capture raises, where the same line
  followed by a newline gives its value; and a dollar in a value cuts it.
\<close>

theorem capture_at_end_of_text:
  "capture ''Job Type: libfuzzer_asan_foo\<newline>'' job_type_rx False False
     = Inr (Some ''libfuzzer_asan_foo'')
   \<and> capture ''Job Type: libfuzzer_asan_foo'' job_type_rx False False
     = Inl (Warning job_type_rx ''Job Type: libfuzzer_asan_foo'')
   \<and> capture ''Job Type: libfuzzer$asan_foo'' job_type_rx False False
     = Inr (Some ''libfuzzer'')"
proof -
  have a: "capture ''Job Type: libfuzzer_asan_foo\<newline>'' job_type_rx False False
             = Inr (Some ''libfuzzer_asan_foo'')"
    by code_simp
  have "search False job_type_rx ''Job Type: libfuzzer_asan_foo'' = None"
    by code_simp
  then have b: "capture ''Job Type: libfuzzer_asan_foo'' job_type_rx False False
             = Inl (Warning job_type_rx ''Job Type: libfuzzer_asan_foo'')"
    by (simp add: capture_def)
  have c: "capture ''Job Type: libfuzzer$asan_foo'' job_type_rx False False
             = Inr (Some ''libfuzzer'')"
    by code_simp
  from a b c show ?thesis by simp
qed

section \<open>The assembler\<close>

lemma get_project_defined: "get_project d id' \<noteq> Inr None"
  using capture_strict_defined [of job_type_rx d False]
    capture_strict_defined [of target_rx d False] capture_strict_defined [of project_rx d False]
  by (auto simp: get_project_def get_jobtype_def always_captures_patterns
      split: sum.splits option.splits)

lemma get_fuzzing_engine_defined: "get_fuzzing_engine d id' \<noteq> Inr None"
  using capture_strict_defined [of job_type_rx d False]
    capture_strict_defined [of fuzzing_engine_rx d False]
  by (auto simp: get_fuzzing_engine_def get_jobtype_def always_captures_patterns
      split: sum.splits option.splits)

lemma get_fuzz_target_binary_defined: "get_fuzz_target_binary d id' \<noteq> Inr None"
  by (auto simp: get_fuzz_target_binary_def Let_def split: sum.splits option.splits)

lemma get_job_type_defined: "get_job_type d \<noteq> Inr None"
  unfolding get_job_type_def
  by (rule capture_strict_defined) (rule always_captures_patterns)

lemma get_platform_id_defined: "get_platform_id d \<noteq> Inr None"
  by (auto simp: get_platform_id_def split: sum.splits option.splits)

lemma get_crash_type_defined: "get_crash_type d \<noteq> Inr None"
  unfolding get_crash_type_def
  by (rule capture_strict_defined) (rule always_captures_patterns)

lemma get_crash_address_defined: "get_crash_address d \<noteq> Inr None"
  unfolding get_crash_address_def
  by (rule capture_strict_defined) (rule always_captures_patterns)

lemma get_sanitizer_defined: "get_sanitizer d id' \<noteq> Inr None"
  using capture_strict_defined [of job_type_rx d False]
    capture_strict_defined [of sanitizer_rx d False]
  by (auto simp: get_sanitizer_def always_captures_patterns split: sum.splits option.splits)

lemma get_testcase_url_defined: "get_testcase_url d \<noteq> Inr None"
  using capture_strict_defined [of download_rx d False]
  by (auto simp: get_testcase_url_def always_captures_patterns split: sum.splits option.splits)

lemma rule_values_fully_populated: "rule_values issue report \<Longrightarrow> fully_populated report"
  unfolding rule_values_def fully_populated_def Let_def
  by (metis get_project_defined get_fuzzing_engine_defined get_fuzz_target_binary_defined
      get_job_type_defined get_platform_id_defined get_crash_type_defined
      get_crash_address_defined get_sanitizer_defined get_testcase_url_defined)

lemma parse_first_failure:
  "rule_failures issue = e # es \<Longrightarrow> parse_oss_fuzz_bug_report_details issue = Inl e"
  unfolding rule_failures_def parse_oss_fuzz_bug_report_details_def Let_def
  apply (cases "get_project (description issue) (issue_id issue)";
      simp add: failure_def and_then_def List.map_filter_simps)
  apply (cases "get_fuzzing_engine (description issue) (issue_id issue)";
      simp add: failure_def and_then_def List.map_filter_simps)
  apply (cases "get_fuzz_target_binary (description issue) (issue_id issue)";
      simp add: failure_def and_then_def List.map_filter_simps)
  apply (cases "get_job_type (description issue)";
      simp add: failure_def and_then_def List.map_filter_simps)
  apply (cases "get_platform_id (description issue)";
      simp add: failure_def and_then_def List.map_filter_simps)
  apply (cases "get_crash_type (description issue)";
      simp add: failure_def and_then_def List.map_filter_simps)
  apply (cases "get_crash_address (description issue)";
      simp add: failure_def and_then_def List.map_filter_simps)
  apply (cases "get_crash_state (description issue)";
      simp add: failure_def and_then_def List.map_filter_simps)
  apply (cases "get_sanitizer (description issue) (issue_id issue)";
      simp add: failure_def and_then_def List.map_filter_simps)
  apply (cases "get_regressed_commits_url (description issue)";
      simp add: failure_def and_then_def List.map_filter_simps)
  apply (cases "get_testcase_url (description issue)";
      simp add: failure_def and_then_def List.map_filter_simps)
  done

lemma parse_no_failure:
  "rule_failures issue = [] \<Longrightarrow>
     \<exists>report. parse_oss_fuzz_bug_report_details issue = Inr report \<and> rule_values issue report"
  unfolding rule_failures_def parse_oss_fuzz_bug_report_details_def rule_values_def Let_def
  apply (cases "get_project (description issue) (issue_id issue)";
      simp add: failure_def and_then_def List.map_filter_simps)
  apply (cases "get_fuzzing_engine (description issue) (issue_id issue)";
      simp add: failure_def and_then_def List.map_filter_simps)
  apply (cases "get_fuzz_target_binary (description issue) (issue_id issue)";
      simp add: failure_def and_then_def List.map_filter_simps)
  apply (cases "get_job_type (description issue)";
      simp add: failure_def and_then_def List.map_filter_simps)
  apply (cases "get_platform_id (description issue)";
      simp add: failure_def and_then_def List.map_filter_simps)
  apply (cases "get_crash_type (description issue)";
      simp add: failure_def and_then_def List.map_filter_simps)
  apply (cases "get_crash_address (description issue)";
      simp add: failure_def and_then_def List.map_filter_simps)
  apply (cases "get_crash_state (description issue)";
      simp add: failure_def and_then_def List.map_filter_simps)
  apply (cases "get_sanitizer (description issue) (issue_id issue)";
      simp add: failure_def and_then_def List.map_filter_simps)
  apply (cases "get_regressed_commits_url (description issue)";
      simp add: failure_def and_then_def List.map_filter_simps)
  apply (cases "get_testcase_url (description issue)";
      simp add: failure_def and_then_def List.map_filter_simps)
  done

lemma parse_result:
  "parse_oss_fuzz_bug_report_details issue = Inr report \<Longrightarrow>
     rule_failures issue = [] \<and> rule_values issue report"
proof (cases "rule_failures issue")
  case Nil
  assume "parse_oss_fuzz_bug_report_details issue = Inr report"
  with parse_no_failure [OF Nil] Nil show ?thesis by auto
next
  case (Cons e es)
  assume "parse_oss_fuzz_bug_report_details issue = Inr report"
  with parse_first_failure [OF Cons] show ?thesis by simp
qed

lemma rule_values_unique:
  "rule_values issue r \<Longrightarrow> rule_values issue r' \<Longrightarrow> r = r'"
  by (rule OSSFuzzBugReport.equality) (simp_all add: rule_values_def Let_def)

text \<open>
  Claim C1.  \<open>attach_oss_fuzz_bug_report\<close> returns false and leaves the issue as it is
  when the classifier returns false; it passes on the exception of the classifier, or
  the first exception of an extraction rule, unchanged and leaves the issue as it is;
  and otherwise it returns true with one report attached, every field of which is the
  value of its rule, the nine text fields being strings.  So whenever it returns true
  the attached report is fully populated.
\<close>

theorem attach_all_or_nothing:
  "((is_oss_fuzz_bug_report issue = Inr False
       \<and> attach_oss_fuzz_bug_report issue = (issue, Inr False))
     \<or> (\<exists>report. is_oss_fuzz_bug_report issue = Inr True
            \<and> attach_oss_fuzz_bug_report issue
                = (issue\<lparr>oss_fuzz_bug_report := Some report\<rparr>, Inr True)
            \<and> rule_values issue report \<and> fully_populated report)
     \<or> (\<exists>x xs. attach_oss_fuzz_bug_report issue = (issue, Inl x)
            \<and> (is_oss_fuzz_bug_report issue = Inl x
                 \<or> is_oss_fuzz_bug_report issue = Inr True \<and> rule_failures issue = x # xs)))
   \<and> (is_oss_fuzz_bug_report issue = Inr False \<longrightarrow>
      attach_oss_fuzz_bug_report issue = (issue, Inr False))
   \<and> (is_oss_fuzz_bug_report issue = Inl e \<longrightarrow>
      attach_oss_fuzz_bug_report issue = (issue, Inl e))
   \<and> (is_oss_fuzz_bug_report issue = Inr True \<and> rule_failures issue = e # es \<longrightarrow>
      attach_oss_fuzz_bug_report issue = (issue, Inl e))
   \<and> (is_oss_fuzz_bug_report issue = Inr True \<and> rule_failures issue = [] \<longrightarrow>
      (\<exists>report. attach_oss_fuzz_bug_report issue
                  = (issue\<lparr>oss_fuzz_bug_report := Some report\<rparr>, Inr True)
               \<and> rule_values issue report \<and> fully_populated report))
   \<and> (attach_oss_fuzz_bug_report issue = (issue', Inr True) \<longrightarrow>
      (\<exists>report. issue' = issue\<lparr>oss_fuzz_bug_report := Some report\<rparr>
               \<and> rule_values issue report \<and> fully_populated report))"
proof -
  have a: "is_oss_fuzz_bug_report issue = Inr False \<longrightarrow>
      attach_oss_fuzz_bug_report issue = (issue, Inr False)"
    by (simp add: attach_oss_fuzz_bug_report_def)
  have b: "is_oss_fuzz_bug_report issue = Inl x \<longrightarrow>
      attach_oss_fuzz_bug_report issue = (issue, Inl x)" for x
    by (simp add: attach_oss_fuzz_bug_report_def)
  have c: "is_oss_fuzz_bug_report issue = Inr True \<and> rule_failures issue = x # xs \<longrightarrow>
      attach_oss_fuzz_bug_report issue = (issue, Inl x)" for x xs
    by (auto simp: attach_oss_fuzz_bug_report_def dest: parse_first_failure)
  have d: "is_oss_fuzz_bug_report issue = Inr True \<and> rule_failures issue = [] \<longrightarrow>
      (\<exists>report. attach_oss_fuzz_bug_report issue
                  = (issue\<lparr>oss_fuzz_bug_report := Some report\<rparr>, Inr True)
               \<and> rule_values issue report \<and> fully_populated report)"
  proof
    assume h: "is_oss_fuzz_bug_report issue = Inr True \<and> rule_failures issue = []"
    then obtain report where r: "parse_oss_fuzz_bug_report_details issue = Inr report"
        "rule_values issue report"
      using parse_no_failure by blast
    with h have "attach_oss_fuzz_bug_report issue
                  = (issue\<lparr>oss_fuzz_bug_report := Some report\<rparr>, Inr True)"
      by (simp add: attach_oss_fuzz_bug_report_def)
    with r(2) rule_values_fully_populated [OF r(2)] show "\<exists>report. attach_oss_fuzz_bug_report issue
                  = (issue\<lparr>oss_fuzz_bug_report := Some report\<rparr>, Inr True)
               \<and> rule_values issue report \<and> fully_populated report"
      by blast
  qed
  have e: "attach_oss_fuzz_bug_report issue = (issue', Inr True) \<longrightarrow>
      (\<exists>report. issue' = issue\<lparr>oss_fuzz_bug_report := Some report\<rparr>
               \<and> rule_values issue report \<and> fully_populated report)"
  proof
    assume h: "attach_oss_fuzz_bug_report issue = (issue', Inr True)"
    then obtain report where r: "parse_oss_fuzz_bug_report_details issue = Inr report"
        "issue' = issue\<lparr>oss_fuzz_bug_report := Some report\<rparr>"
      by (auto simp: attach_oss_fuzz_bug_report_def split: sum.splits bool.splits)
    from parse_result [OF r(1)] have "rule_values issue report" by simp
    with r(2) rule_values_fully_populated [OF this]
    show "\<exists>report. issue' = issue\<lparr>oss_fuzz_bug_report := Some report\<rparr>
               \<and> rule_values issue report \<and> fully_populated report"
      by blast
  qed
  have three: "(is_oss_fuzz_bug_report issue = Inr False
       \<and> attach_oss_fuzz_bug_report issue = (issue, Inr False))
     \<or> (\<exists>report. is_oss_fuzz_bug_report issue = Inr True
            \<and> attach_oss_fuzz_bug_report issue
                = (issue\<lparr>oss_fuzz_bug_report := Some report\<rparr>, Inr True)
            \<and> rule_values issue report \<and> fully_populated report)
     \<or> (\<exists>x xs. attach_oss_fuzz_bug_report issue = (issue, Inl x)
            \<and> (is_oss_fuzz_bug_report issue = Inl x
                 \<or> is_oss_fuzz_bug_report issue = Inr True \<and> rule_failures issue = x # xs))"
  proof (cases "is_oss_fuzz_bug_report issue")
    case (Inl x)
    with b [of x] show ?thesis by auto
  next
    case (Inr ok)
    show ?thesis
    proof (cases ok)
      case False
      with Inr a show ?thesis by simp
    next
      case True
      show ?thesis
      proof (cases "rule_failures issue")
        case Nil
        with Inr True d show ?thesis by simp
      next
        case (Cons x xs)
        with Inr True c [of x xs] show ?thesis by auto
      qed
    qed
  qed
  from three a b [of e] c [of e es] d e show ?thesis by blast
qed

theorem attach_all_or_nothing_witness:
  "is_oss_fuzz_bug_report full_issue = Inr True
   \<and> rule_failures full_issue = []
   \<and> attach_oss_fuzz_bug_report full_issue
       = (full_issue\<lparr>oss_fuzz_bug_report := Some full_report\<rparr>, Inr True)
   \<and> fully_populated full_report
   \<and> is_oss_fuzz_bug_report truncated_issue = Inr True
   \<and> rule_failures truncated_issue
       = [Warning crash_state_rx (description truncated_issue),
          Warning sanitizer_rx (description truncated_issue),
          Warning download_rx (description truncated_issue)]
   \<and> attach_oss_fuzz_bug_report truncated_issue
       = (truncated_issue, Inl (Warning crash_state_rx (description truncated_issue)))"
proof -
  have c1: "is_oss_fuzz_bug_report full_issue = Inr True"
    unfolding full_issue_def by code_simp
  have f1: "rule_failures full_issue = []"
    unfolding full_issue_def by code_simp
  have v1: "rule_values full_issue full_report"
    unfolding full_issue_def full_report_def by code_simp
  from attach_all_or_nothing [of full_issue] c1 f1
  obtain report where r: "attach_oss_fuzz_bug_report full_issue
                  = (full_issue\<lparr>oss_fuzz_bug_report := Some report\<rparr>, Inr True)"
      "rule_values full_issue report" "fully_populated report"
    by blast
  from rule_values_unique [OF r(2) v1] have eq: "report = full_report" .
  have c2: "is_oss_fuzz_bug_report truncated_issue = Inr True"
    unfolding truncated_issue_def full_issue_def by code_simp
  have f2: "rule_failures truncated_issue
       = [Warning crash_state_rx (description truncated_issue),
          Warning sanitizer_rx (description truncated_issue),
          Warning download_rx (description truncated_issue)]"
    unfolding truncated_issue_def full_issue_def by code_simp
  from attach_all_or_nothing [of truncated_issue] c2 f2
  have t: "attach_oss_fuzz_bug_report truncated_issue
       = (truncated_issue, Inl (Warning crash_state_rx (description truncated_issue)))"
    by blast
  from c1 f1 r eq c2 f2 t show ?thesis by simp
qed

section \<open>The crash-state pattern\<close>

lemma first_group_append:
  "first_group (xs @ ys) = (case first_group xs of None \<Rightarrow> first_group ys | Some g \<Rightarrow> Some g)"
  by (cases xs) (simp_all add: first_group_def)

lemma first_group_const:
  assumes "\<And>m. m \<in> set ms \<Longrightarrow> fst m = g"
  shows "first_group ms = (if ms = [] then None else Some g)"
  using assms by (cases ms) (auto simp: first_group_def)

lemma search_first_group:
  "search dotall r (c # cs) =
     (case first_group (rx_match dotall r (None, c # cs)) of
        None \<Rightarrow> search dotall r cs
      | Some g \<Rightarrow> Some g)"
  "search dotall r [] = first_group (rx_match dotall r (None, []))"
  by (simp_all add: first_group_def split: list.splits)

lemma lit_match:
  "rx_match dotall (lit w) (g, s) = (if prefix w s then [(g, drop (length w) s)] else [])"
proof (induction w arbitrary: s)
  case Nil
  then show ?case by simp
next
  case (Cons c w)
  then show ?case by (cases s) auto
qed

lemma rx_match_Eps_fun: "rx_match dotall Eps = (\<lambda>m. [m])"
proof
  fix m :: "string option \<times> string"
  show "rx_match dotall Eps m = [m]" by (cases m) simp
qed

lemma concat_map_singleton: "concat (map (\<lambda>m. [m]) ms) = ms"
  by (induction ms) simp_all

lemma lazy_runs_length: "s' \<in> set (lazy_runs p s) \<Longrightarrow> length s' \<le> length s"
  by (induction s) (auto split: if_splits)

lemma isspace_newline: "isspace (CHR 0x0A)"
  by (simp add: isspace_def)

lemma blank_match_nonempty:
  "concat (map (\<lambda>s'. rx_match dotall (Atom (Ch CHR 0x0A)) (g, s')) (greedy_runs isspace t)) \<noteq> []
     \<longleftrightarrow> blank_line_start t"
proof (induction t)
  case Nil
  then show ?case by (simp add: blank_line_start_def)
next
  case (Cons c cs)
  then show ?case
    using isspace_newline by (auto simp: blank_line_start_def)
qed

lemma blank_match_group:
  "m \<in> set (concat (map (\<lambda>s'. rx_match dotall (Atom (Ch CHR 0x0A)) (g, s')) (greedy_runs p t)))
     \<Longrightarrow> fst m = g"
  by (induction t) (auto split: list.splits if_splits)

lemma terminator_match:
  "rx_match True (Alt (lit ''Sanitizer'') (Seq (Star Space) (Atom (Ch CHR 0x0A)))) (g, t)
     = (if prefix ''Sanitizer'' t then [(g, drop (length ''Sanitizer'') t)] else [])
       @ concat (map (\<lambda>s'. rx_match True (Atom (Ch CHR 0x0A)) (g, s')) (greedy_runs isspace t))"
proof -
  have sp: "atom_matches True Space = isspace" by (rule ext) simp
  show ?thesis
    by (simp only: rx_match.simps(3,4,5) lit_match sp map_map comp_def)
qed

lemma block_end_match:
  "first_group (rx_match True
      (pieces [Atom (Ch CHR 0x0A), Alt (lit ''Sanitizer'') (Seq (Star Space) (Atom (Ch CHR 0x0A)))])
      (g, u))
   = (case u of [] \<Rightarrow> None
      | c # t \<Rightarrow> if c = CHR 0x0A \<and> block_terminator t then Some g else None)"
proof -
  define T where "T = Alt (lit ''Sanitizer'') (Seq (Star Space) (Atom (Ch CHR 0x0A)))"
  have all_g: "fst m = g" if "m \<in> set (rx_match True T (g, t))" for m t
    using that unfolding T_def terminator_match
    by (auto dest: blank_match_group split: if_splits)
  have ne: "rx_match True T (g, t) \<noteq> [] \<longleftrightarrow> block_terminator t" for t
    unfolding T_def terminator_match block_terminator_def
    using blank_match_nonempty [of True g t] by auto
  have first: "first_group (rx_match True T (g, t)) = (if block_terminator t then Some g else None)"
    for t
    using first_group_const [of "rx_match True T (g, t)" g] all_g ne by auto
  have "first_group (rx_match True (pieces [Atom (Ch CHR 0x0A), T]) (g, u))
          = (case u of [] \<Rightarrow> None
             | c # t \<Rightarrow> if c = CHR 0x0A \<and> block_terminator t then Some g else None)"
  proof (cases u)
    case Nil
    then show ?thesis by (simp add: first_group_def)
  next
    case (Cons c t)
    then have "rx_match True (pieces [Atom (Ch CHR 0x0A), T]) (g, u)
          = (if c = CHR 0x0A then rx_match True T (g, t) else [])"
      by (simp add: rx_match_Eps_fun concat_map_singleton)
    with Cons first [of t] show ?thesis by (simp add: first_group_def)
  qed
  then show ?thesis unfolding T_def .
qed

lemma lazy_block_first:
  fixes tail :: rx
  assumes tail: "\<And>g u. first_group (rx_match True tail (g, u))
                   = (case u of [] \<Rightarrow> None
                      | c # t \<Rightarrow> if c = CHR 0x0A \<and> block_terminator t then Some g else None)"
  shows "first_group (concat (map (\<lambda>s'. rx_match True tail
                                   (Some (pre @ take (length s - length s') s), s'))
                            (lazy_runs (\<lambda>c. True) s)))
         = map_option (\<lambda>b. Some (pre @ b)) (block_upto_terminator s)"
proof (induction s arbitrary: pre)
  case Nil
  then show ?case by (simp add: tail)
next
  case (Cons c cs)
  have shift: "map (\<lambda>s'. rx_match True tail
                     (Some (pre @ take (length (c # cs) - length s') (c # cs)), s'))
                 (lazy_runs (\<lambda>c. True) cs)
             = map (\<lambda>s'. rx_match True tail
                     (Some ((pre @ [c]) @ take (length cs - length s') cs), s'))
                 (lazy_runs (\<lambda>c. True) cs)"
  proof (rule map_cong [OF refl])
    fix s' assume "s' \<in> set (lazy_runs (\<lambda>c. True) cs)"
    then have "length s' \<le> length cs" by (rule lazy_runs_length)
    then have "length (c # cs) - length s' = Suc (length cs - length s')" by simp
    then show "rx_match True tail (Some (pre @ take (length (c # cs) - length s') (c # cs)), s')
             = rx_match True tail (Some ((pre @ [c]) @ take (length cs - length s') cs), s')"
      by simp
  qed
  have runs: "lazy_runs (\<lambda>c. True) (c # cs) = (c # cs) # lazy_runs (\<lambda>c. True) cs"
    by simp
  have split_first:
    "concat (map (\<lambda>s'. rx_match True tail
                     (Some (pre @ take (length (c # cs) - length s') (c # cs)), s'))
                 (lazy_runs (\<lambda>c. True) (c # cs)))
     = rx_match True tail (Some pre, c # cs)
       @ concat (map (\<lambda>s'. rx_match True tail
                     (Some ((pre @ [c]) @ take (length cs - length s') cs), s'))
                 (lazy_runs (\<lambda>c. True) cs))"
    unfolding runs shift [symmetric] by simp
  have here: "first_group (rx_match True tail (Some pre, c # cs))
                = (if c = CHR 0x0A \<and> block_terminator cs then Some (Some pre) else None)"
    by (simp add: tail)
  show ?case
  proof (cases "c = CHR 0x0A \<and> block_terminator cs")
    case True
    then have "block_upto_terminator (c # cs) = Some []" by simp
    with True show ?thesis
      unfolding split_first first_group_append here by simp
  next
    case False
    then have "block_upto_terminator (c # cs) = map_option ((#) c) (block_upto_terminator cs)"
      by auto
    with False show ?thesis
      unfolding split_first first_group_append here Cons.IH [of "pre @ [c]"]
      by (auto simp: option.map_comp comp_def)
  qed
qed

lemma crash_state_match:
  "first_group (rx_match True crash_state_rx (g, u))
     = (if prefix ''Crash State:\<newline>'' u
        then map_option Some (block_upto_terminator (drop (length ''Crash State:\<newline>'') u))
        else None)"
proof -
  define tail where
    "tail = pieces [Atom (Ch CHR 0x0A),
                    Alt (lit ''Sanitizer'') (Seq (Star Space) (Atom (Ch CHR 0x0A)))]"
  define marker where "marker = ''Crash State:\<newline>''"
  have dot: "atom_matches True Dot = (\<lambda>c. True)" by (rule ext) simp
  have tl: "first_group (rx_match True tail (g, u))
              = (case u of [] \<Rightarrow> None
                 | c # t \<Rightarrow> if c = CHR 0x0A \<and> block_terminator t then Some g else None)"
    for g u
    unfolding tail_def by (rule block_end_match)
  have rx: "crash_state_rx = Seq (lit marker) (Seq (Group (LazyStar Dot)) tail)"
    by (simp add: crash_state_rx_def tail_def marker_def del: lit.simps)
  have grp: "rx_match True (Seq (Group (LazyStar Dot)) tail) (g, s)
          = concat (map (\<lambda>s'. rx_match True tail (Some ([] @ take (length s - length s') s), s'))
                      (lazy_runs (\<lambda>c. True) s))" for s
    by (simp add: dot comp_def)
  have whole: "rx_match True (Seq (lit marker) (Seq (Group (LazyStar Dot)) tail)) (g, u)
     = (if prefix marker u
        then rx_match True (Seq (Group (LazyStar Dot)) tail) (g, drop (length marker) u)
        else [])"
    by (simp only: rx_match.simps(3) lit_match) simp
  have "first_group (rx_match True (Seq (lit marker) (Seq (Group (LazyStar Dot)) tail)) (g, u))
     = (if prefix marker u
        then map_option Some (block_upto_terminator (drop (length marker) u))
        else None)"
  proof (cases "prefix marker u")
    case True
    then show ?thesis
      unfolding whole grp
      using lazy_block_first [of tail "[]" "drop (length marker) u", OF tl]
      by (simp add: option.map_comp comp_def)
  next
    case False
    then show ?thesis
      unfolding whole by (simp add: first_group_def)
  qed
  then show ?thesis unfolding rx marker_def .
qed

lemma block_upto_None_suffix:
  "block_upto_terminator s = None \<Longrightarrow> suffix s' s \<Longrightarrow> block_upto_terminator s' = None"
proof (induction s)
  case Nil
  then show ?case by simp
next
  case (Cons c cs)
  then show ?case by (auto simp: suffix_Cons split: if_splits)
qed

lemma text_after_first_Some:
  "text_after_first marker x = Some y \<Longrightarrow> \<exists>p. x = p @ marker @ y"
proof (induction x)
  case Nil
  then show ?case by (auto split: if_splits)
next
  case (Cons c cs)
  show ?case
  proof (cases "prefix marker (c # cs)")
    case True
    with Cons.prems have "y = drop (length marker) (c # cs)" by simp
    with True have "c # cs = [] @ marker @ y"
      by (metis append_Nil append_eq_conv_conj prefixE)
    then show ?thesis by blast
  next
    case False
    with Cons.prems have "text_after_first marker cs = Some y" by simp
    from Cons.IH [OF this] obtain p where "cs = p @ marker @ y" by blast
    then have "c # cs = (c # p) @ marker @ y" by simp
    then show ?thesis by blast
  qed
qed

lemma text_after_first_append:
  "\<exists>s. text_after_first marker (p @ marker @ y) = Some s \<and> suffix y s"
proof (induction p)
  case Nil
  show ?case
  proof (cases "marker @ y")
    case Nil
    then show ?thesis by simp
  next
    case (Cons c cs)
    then have "text_after_first marker (marker @ y) = Some y"
      by (metis append_eq_conv_conj prefixI text_after_first.simps(2))
    then show ?thesis by simp
  qed
next
  case (Cons c p)
  show ?case
  proof (cases "prefix marker (c # p @ marker @ y)")
    case True
    have "suffix y (c # p @ marker @ y)"
      by (metis append_Cons append_assoc suffixI)
    moreover have "suffix (drop (length marker) (c # p @ marker @ y)) (c # p @ marker @ y)"
      by (rule suffix_drop)
    moreover have "length y \<le> length (drop (length marker) (c # p @ marker @ y))"
      by simp
    ultimately have "suffix y (drop (length marker) (c # p @ marker @ y))"
      by (rule suffix_length_suffix)
    with True show ?thesis by simp
  next
    case False
    with Cons.IH show ?thesis by simp
  qed
qed

lemma search_crash_state: "search True crash_state_rx d = map_option Some (crash_block d)"
proof -
  define marker where "marker = ''Crash State:\<newline>''"
  have csm: "first_group (rx_match True crash_state_rx (g, u))
     = (if prefix marker u
        then map_option Some (block_upto_terminator (drop (length marker) u))
        else None)" for g u
    unfolding marker_def by (rule crash_state_match)
  have cbd: "crash_block x =
     (case text_after_first marker x of None \<Rightarrow> None | Some s \<Rightarrow> block_upto_terminator s)"
    for x
    unfolding marker_def by (fact crash_block_def)
  have marker_ne: "marker \<noteq> []" by (simp add: marker_def)
  show ?thesis
  proof (induction d)
    case Nil
    have "\<not> prefix marker []" using marker_ne by simp
    then show ?case
      unfolding search_first_group csm cbd using marker_ne by simp
  next
    case (Cons c cs)
    show ?case
    proof (cases "prefix marker (c # cs)")
      case True
      define s where "s = drop (length marker) (c # cs)"
      from True have d: "c # cs = marker @ s"
        unfolding s_def by (metis append_eq_conv_conj prefixE)
      have cb: "crash_block (c # cs) = block_upto_terminator s"
        unfolding cbd s_def using True by simp
      show ?thesis
      proof (cases "block_upto_terminator s")
        case None
        have "crash_block cs = None"
        proof (cases "text_after_first marker cs")
          case None
          then show ?thesis unfolding cbd by simp
        next
          case (Some s2)
          from text_after_first_Some [OF Some] obtain p where p: "cs = p @ marker @ s2" by blast
          have "suffix s2 (c # cs)" using p by (metis append_Cons append_assoc suffixI)
          moreover have "suffix s (c # cs)" using d by (metis suffixI)
          moreover have "length s2 \<le> length s"
          proof -
            from p have "length cs = length p + length marker + length s2" by simp
            moreover from d have "Suc (length cs) = length marker + length s"
              by (metis length_Cons length_append)
            ultimately show ?thesis by simp
          qed
          ultimately have "suffix s2 s" by (rule suffix_length_suffix)
          from block_upto_None_suffix [OF None this] Some show ?thesis
            unfolding cbd by simp
        qed
        with None cb True Cons.IH show ?thesis
          unfolding search_first_group csm s_def by simp
      next
        case (Some blk)
        with cb True show ?thesis
          unfolding search_first_group csm s_def by simp
      qed
    next
      case False
      then have "crash_block (c # cs) = crash_block cs"
        unfolding cbd by simp
      with False Cons.IH show ?thesis
        unfolding search_first_group csm by simp
    qed
  qed
qed

lemma crash_state_loop:
  "foldl crash_state_step acc ls = acc @ filter (\<lambda>line. line \<noteq> []) (map strip ls)"
  by (induction ls arbitrary: acc) (simp_all add: crash_state_step_def Let_def)

lemma get_crash_state_block:
  "get_crash_state d =
     (case crash_block d of
        None \<Rightarrow> Inl (Warning crash_state_rx d)
      | Some block \<Rightarrow> Inr (kept_lines block))"
  by (simp add: get_crash_state_def capture_def search_crash_state crash_state_loop
      kept_lines_def split: option.splits)

lemma blank_line_start_iff:
  "blank_line_start t \<longleftrightarrow> (\<exists>ws rest. t = ws @ CHR 0x0A # rest \<and> (\<forall>c \<in> set ws. isspace c))"
proof
  assume "blank_line_start t"
  then have "CHR 0x0A \<in> set (takeWhile isspace t)" by (simp add: blank_line_start_def)
  then obtain ws ys where w: "takeWhile isspace t = ws @ CHR 0x0A # ys"
    by (meson split_list)
  have "t = takeWhile isspace t @ dropWhile isspace t" by simp
  with w have "t = ws @ CHR 0x0A # (ys @ dropWhile isspace t)" by simp
  moreover have "\<forall>c \<in> set ws. isspace c"
  proof
    fix c assume "c \<in> set ws"
    with w have "c \<in> set (takeWhile isspace t)" by simp
    then show "isspace c" by (rule set_takeWhileD [THEN conjunct2])
  qed
  ultimately show "\<exists>ws rest. t = ws @ CHR 0x0A # rest \<and> (\<forall>c \<in> set ws. isspace c)" by blast
next
  assume "\<exists>ws rest. t = ws @ CHR 0x0A # rest \<and> (\<forall>c \<in> set ws. isspace c)"
  then obtain ws rest where t: "t = ws @ CHR 0x0A # rest" and ws: "\<forall>c \<in> set ws. isspace c"
    by blast
  from ws have "takeWhile isspace (ws @ CHR 0x0A # rest)
                  = ws @ takeWhile isspace (CHR 0x0A # rest)"
    by (simp add: takeWhile_append2)
  with t show "blank_line_start t"
    by (simp add: blank_line_start_def isspace_newline)
qed

lemma block_upto_Some:
  "block_upto_terminator s = Some block \<Longrightarrow>
     \<exists>after. s = block @ CHR 0x0A # after \<and> block_terminator after"
proof (induction s arbitrary: block)
  case Nil
  then show ?case by simp
next
  case (Cons c cs)
  show ?case
  proof (cases "c = CHR 0x0A \<and> block_terminator cs")
    case True
    with Cons.prems show ?thesis by auto
  next
    case False
    with Cons.prems obtain b where b: "block_upto_terminator cs = Some b" "block = c # b"
      by auto
    from Cons.IH [OF b(1)] b(2) show ?thesis by auto
  qed
qed

lemma block_upto_next:
  "block_upto_terminator s = Some block \<Longrightarrow> block = x @ CHR 0x0A # y \<Longrightarrow>
     \<not> block_terminator (drop (Suc (length x)) s)"
proof (induction s arbitrary: block x)
  case Nil
  then show ?case by simp
next
  case (Cons c cs)
  show ?case
  proof (cases "c = CHR 0x0A \<and> block_terminator cs")
    case True
    with Cons.prems show ?thesis by auto
  next
    case False
    with Cons.prems(1) obtain b where b: "block_upto_terminator cs = Some b" "block = c # b"
      by auto
    show ?thesis
    proof (cases x)
      case Nil
      with Cons.prems(2) b(2) have "c = CHR 0x0A" by simp
      with False Nil show ?thesis by simp
    next
      case (Cons c' x')
      with Cons.prems(2) b(2) have "b = x' @ CHR 0x0A # y" by simp
      from Cons.IH [OF b(1) this] Cons show ?thesis by simp
    qed
  qed
qed

lemma block_upto_complete:
  "block_terminator after \<Longrightarrow> block_upto_terminator (x @ CHR 0x0A # after) \<noteq> None"
  by (induction x) auto

lemma text_after_first_least:
  "text_after_first marker d = Some s \<Longrightarrow> d = p @ marker @ q \<Longrightarrow>
     length d - length marker - length s \<le> length p"
proof (induction d arbitrary: p)
  case Nil
  then show ?case by simp
next
  case (Cons c cs)
  show ?case
  proof (cases "prefix marker (c # cs)")
    case True
    with Cons.prems(1) have "s = drop (length marker) (c # cs)" by simp
    then have "length (c # cs) - length marker - length s = 0" by simp
    then show ?thesis by simp
  next
    case False
    with Cons.prems(1) have s: "text_after_first marker cs = Some s" by simp
    from False Cons.prems(2) obtain p' where p': "p = c # p'"
      by (cases p) auto
    with Cons.prems(2) have "cs = p' @ marker @ q" by simp
    from Cons.IH [OF s this] p' show ?thesis by simp
  qed
qed

lemma crash_block_Some:
  assumes "crash_block d = Some block"
  shows "\<exists>before after.
           d = before @ ''Crash State:\<newline>'' @ block @ CHR 0x0A # after
           \<and> block_terminator after
           \<and> (\<forall>p q. d = p @ ''Crash State:\<newline>'' @ q \<longrightarrow> length before \<le> length p)
           \<and> (\<forall>x y. block = x @ CHR 0x0A # y \<longrightarrow> \<not> block_terminator (y @ CHR 0x0A # after))"
proof -
  define marker where "marker = ''Crash State:\<newline>''"
  from assms obtain s where s: "text_after_first marker d = Some s"
      "block_upto_terminator s = Some block"
    by (auto simp: crash_block_def marker_def split: option.splits)
  from text_after_first_Some [OF s(1)] obtain before where b: "d = before @ marker @ s" by blast
  from block_upto_Some [OF s(2)] obtain after
    where a: "s = block @ CHR 0x0A # after" "block_terminator after" by blast
  have least: "length before \<le> length p" if "d = p @ marker @ q" for p q
    using text_after_first_least [OF s(1) that] b by simp
  have nxt: "\<not> block_terminator (y @ CHR 0x0A # after)" if "block = x @ CHR 0x0A # y" for x y
    using block_upto_next [OF s(2) that] a(1) that by simp
  from a b least nxt
  have "d = before @ marker @ block @ CHR 0x0A # after \<and> block_terminator after
        \<and> (\<forall>p q. d = p @ marker @ q \<longrightarrow> length before \<le> length p)
        \<and> (\<forall>x y. block = x @ CHR 0x0A # y \<longrightarrow> \<not> block_terminator (y @ CHR 0x0A # after))"
    by blast
  then show ?thesis unfolding marker_def by blast
qed

lemma crash_block_complete:
  assumes "d = before @ ''Crash State:\<newline>'' @ x @ CHR 0x0A # after" and "block_terminator after"
  shows "crash_block d \<noteq> None"
proof -
  define marker where "marker = ''Crash State:\<newline>''"
  from text_after_first_append [of marker before "x @ CHR 0x0A # after"]
  obtain s where s: "text_after_first marker (before @ marker @ x @ CHR 0x0A # after) = Some s"
      "suffix (x @ CHR 0x0A # after) s"
    by blast
  have "block_upto_terminator s \<noteq> None"
    using block_upto_None_suffix [OF _ s(2)] block_upto_complete [OF assms(2), of x] by blast
  with s(1) assms(1) show ?thesis
    by (simp add: crash_block_def marker_def)
qed

lemma crash_block_None_iff:
  "crash_block d = None \<longleftrightarrow>
     \<not> (\<exists>before x after. d = before @ ''Crash State:\<newline>'' @ x @ CHR 0x0A # after
                         \<and> block_terminator after)"
proof
  assume none: "crash_block d = None"
  show "\<not> (\<exists>before x after. d = before @ ''Crash State:\<newline>'' @ x @ CHR 0x0A # after
                         \<and> block_terminator after)"
  proof
    assume "\<exists>before x after. d = before @ ''Crash State:\<newline>'' @ x @ CHR 0x0A # after
                         \<and> block_terminator after"
    then obtain before x after
      where "d = before @ ''Crash State:\<newline>'' @ x @ CHR 0x0A # after" "block_terminator after"
      by blast
    from crash_block_complete [OF this] none show False by simp
  qed
next
  assume no: "\<not> (\<exists>before x after. d = before @ ''Crash State:\<newline>'' @ x @ CHR 0x0A # after
                         \<and> block_terminator after)"
  show "crash_block d = None"
  proof (cases "crash_block d")
    case None
    then show ?thesis .
  next
    case (Some block)
    from crash_block_Some [OF Some] no show ?thesis by blast
  qed
qed

text \<open>
  Claim C7 says that the rule captures the block between \<open>Crash State:\<close> and the next
  \<open>Sanitizer\<close> marker or blank line, and that an empty block gives the empty sequence.
  The pattern wants a newline between the block and what ends it, and the newline of the
  \<open>Crash State:\<close> line is not that one.  So a \<open>Sanitizer\<close> line right after the
  \<open>Crash State:\<close> line does not end the block but is returned as a line of it, and an
  empty line right after the \<open>Crash State:\<close> line does not end the block either.
\<close>

theorem crash_state_adjacent_terminator:
  "get_crash_state ''Crash State:\<newline>Sanitizer: ASAN\<newline>\<newline>Regressed: r\<newline>''
     = Inr [''Sanitizer: ASAN'']
   \<and> get_crash_state ''Crash State:\<newline>\<newline>  frame\<newline>\<newline>Sanitizer: ASAN\<newline>''
     = Inr [''frame'']"
proof -
  have a: "get_crash_state ''Crash State:\<newline>Sanitizer: ASAN\<newline>\<newline>Regressed: r\<newline>''
     = Inr [''Sanitizer: ASAN'']"
    by code_simp
  have b: "get_crash_state ''Crash State:\<newline>\<newline>  frame\<newline>\<newline>Sanitizer: ASAN\<newline>''
     = Inr [''frame'']"
    by code_simp
  from a b show ?thesis by simp
qed

text \<open>
  Claim C7, amended.  The crash-state rule captures the block that starts after the first
  \<open>Crash State:\<close> line and ends before the next newline that is followed by \<open>Sanitizer\<close>
  or by a blank line (whitespace up to a further newline); it splits the block into
  lines, trims each line, drops the empty ones and keeps the order of the rest; without
  such a block it raises.  The block of the specification's example gives its three
  frames, and an empty captured block gives the empty sequence.
\<close>

theorem crash_state_block_lines:
  "get_crash_state d =
     (case crash_block d of
        None \<Rightarrow> Inl (Warning crash_state_rx d)
      | Some block \<Rightarrow> Inr (filter (\<lambda>line. line \<noteq> []) (map strip (split block CHR 0x0A))))
   \<and> (crash_block d = Some block \<longrightarrow>
        (\<exists>before after.
           d = before @ ''Crash State:\<newline>'' @ block @ CHR 0x0A # after
           \<and> block_terminator after
           \<and> (\<forall>p q. d = p @ ''Crash State:\<newline>'' @ q \<longrightarrow> length before \<le> length p)
           \<and> (\<forall>x y. block = x @ CHR 0x0A # y \<longrightarrow> \<not> block_terminator (y @ CHR 0x0A # after))))
   \<and> (block_terminator t \<longleftrightarrow>
        prefix ''Sanitizer'' t
        \<or> (\<exists>ws rest. t = ws @ CHR 0x0A # rest \<and> (\<forall>c \<in> set ws. isspace c)))
   \<and> get_crash_state
        ''Crash State:\<newline>  top frame\<newline>  middle\<newline>  bottom\<newline>\<newline>Sanitizer: ASAN''
       = Inr [''top frame'', ''middle'', ''bottom'']
   \<and> get_crash_state ''Crash State:\<newline>\<newline>Sanitizer: ASAN'' = Inr []
   \<and> (crash_block d = Some [] \<longrightarrow> get_crash_state d = Inr [])"
proof -
  have a: "get_crash_state d =
     (case crash_block d of
        None \<Rightarrow> Inl (Warning crash_state_rx d)
      | Some block \<Rightarrow> Inr (filter (\<lambda>line. line \<noteq> []) (map strip (split block CHR 0x0A))))"
    by (simp add: get_crash_state_block kept_lines_def split: option.splits)
  have b: "crash_block d = Some block \<longrightarrow>
        (\<exists>before after.
           d = before @ ''Crash State:\<newline>'' @ block @ CHR 0x0A # after
           \<and> block_terminator after
           \<and> (\<forall>p q. d = p @ ''Crash State:\<newline>'' @ q \<longrightarrow> length before \<le> length p)
           \<and> (\<forall>x y. block = x @ CHR 0x0A # y \<longrightarrow> \<not> block_terminator (y @ CHR 0x0A # after)))"
    using crash_block_Some by blast
  have c: "block_terminator t \<longleftrightarrow>
        prefix ''Sanitizer'' t
        \<or> (\<exists>ws rest. t = ws @ CHR 0x0A # rest \<and> (\<forall>c \<in> set ws. isspace c))"
    unfolding block_terminator_def blank_line_start_iff ..
  have e1: "get_crash_state
        ''Crash State:\<newline>  top frame\<newline>  middle\<newline>  bottom\<newline>\<newline>Sanitizer: ASAN''
       = Inr [''top frame'', ''middle'', ''bottom'']"
    by code_simp
  have e2: "get_crash_state ''Crash State:\<newline>\<newline>Sanitizer: ASAN'' = Inr []"
    by code_simp
  have e3: "crash_block d = Some [] \<longrightarrow> get_crash_state d = Inr []"
    by (simp add: get_crash_state_block kept_lines_def strip_def)
  from a b c e1 e2 e3 show ?thesis by blast
qed

theorem crash_state_block_lines_witness:
  "crash_block ''Report\<newline>Crash State:\<newline>  f1\<newline>  f2 \<newline> \<newline>Sanitizer: x\<newline>''
     = Some ''  f1\<newline>  f2 ''
   \<and> get_crash_state ''Report\<newline>Crash State:\<newline>  f1\<newline>  f2 \<newline> \<newline>Sanitizer: x\<newline>''
     = Inr [''f1'', ''f2'']
   \<and> block_terminator '' \<newline>Sanitizer: x\<newline>''
   \<and> block_terminator ''Sanitizer: x\<newline>''
   \<and> \<not> block_terminator ''  f2 \<newline> \<newline>Sanitizer: x\<newline>''"
proof -
  let ?d = "''Report\<newline>Crash State:\<newline>  f1\<newline>  f2 \<newline> \<newline>Sanitizer: x\<newline>''"
  have cb: "crash_block ?d = Some ''  f1\<newline>  f2 ''" by code_simp
  have ls: "filter (\<lambda>line. line \<noteq> []) (map strip (split ''  f1\<newline>  f2 '' CHR 0x0A))
              = [''f1'', ''f2'']"
    by code_simp
  have t1: "block_terminator '' \<newline>Sanitizer: x\<newline>''" by code_simp
  have t2: "block_terminator ''Sanitizer: x\<newline>''" by code_simp
  have t3: "\<not> block_terminator ''  f2 \<newline> \<newline>Sanitizer: x\<newline>''" by code_simp
  from crash_state_block_lines [of ?d "''  f1\<newline>  f2 ''"] cb ls
  have "get_crash_state ?d = Inr [''f1'', ''f2'']" by simp
  with cb t1 t2 t3 show ?thesis by simp
qed

text \<open>
  Claim C10.  When no newline after a \<open>Crash State:\<close> line of the description is
  followed by \<open>Sanitizer\<close> or by a blank line, as when the crash-state lines are the last
  thing in the description, the crash-state rule raises and returns no lines.
\<close>

theorem crash_state_unterminated_raises:
  assumes "\<not> (\<exists>before x after. d = before @ ''Crash State:\<newline>'' @ x @ CHR 0x0A # after
                         \<and> (prefix ''Sanitizer'' after \<or> blank_line_start after))"
  shows "get_crash_state d = Inl (Warning crash_state_rx d)"
proof -
  from assms have "crash_block d = None"
    unfolding crash_block_None_iff block_terminator_def .
  then show ?thesis by (simp add: get_crash_state_block)
qed

theorem crash_state_unterminated_raises_witness:
  "sublist ''Crash State:\<newline>'' trailing_frames_description
   \<and> get_crash_state trailing_frames_description
       = Inl (Warning crash_state_rx trailing_frames_description)
   \<and> sublist ''Crash State:\<newline>'' trailing_newline_description
   \<and> get_crash_state trailing_newline_description
       = Inl (Warning crash_state_rx trailing_newline_description)"
proof -
  have m1: "sublist ''Crash State:\<newline>'' trailing_frames_description"
    unfolding contains_sublist [symmetric] trailing_frames_description_def by code_simp
  have m2: "sublist ''Crash State:\<newline>'' trailing_newline_description"
    unfolding contains_sublist [symmetric] trailing_newline_description_def by code_simp
  have "crash_block trailing_frames_description = None"
    unfolding trailing_frames_description_def by code_simp
  then have h1: "\<not> (\<exists>before x after.
        trailing_frames_description = before @ ''Crash State:\<newline>'' @ x @ CHR 0x0A # after
        \<and> (prefix ''Sanitizer'' after \<or> blank_line_start after))"
    unfolding crash_block_None_iff block_terminator_def .
  have "crash_block trailing_newline_description = None"
    unfolding trailing_newline_description_def by code_simp
  then have h2: "\<not> (\<exists>before x after.
        trailing_newline_description = before @ ''Crash State:\<newline>'' @ x @ CHR 0x0A # after
        \<and> (prefix ''Sanitizer'' after \<or> blank_line_start after))"
    unfolding crash_block_None_iff block_terminator_def .
  from crash_state_unterminated_raises [OF h1] crash_state_unterminated_raises [OF h2] m1 m2
  show ?thesis by simp
qed

end
